theory Spec2Isabelle
  imports Main "HOL-Library.AList" "HOL-Library.Sublist"
begin

section \<open>Startup schema repair and migrations of the asset-management server\<close>

text \<open>
  The server's startup code (\<^verbatim>\<open>ensureCriticalSchema\<close>, \<^verbatim>\<open>runMigrations\<close>) talks to a MySQL
  database through \<^verbatim>\<open>connection.query\<close>, writes to the console and hashes one password
  with bcryptjs. The JavaScript is embedded as functions on an explicit world: the
  database, and the trace of everything the code did (connection events, queries,
  console lines), in order.

  Three things the code depends on are outside the repository and are modelled from
  their documented behaviour, each stated where it is defined:
  \<^item> MySQL, for exactly the statement forms the code issues;
  \<^item> failures of a query that do not come from the statement and the schema (lost
    connection, permissions, locks): an oracle \<open>fails\<close> that says, for each position of
    the trace, whether the call made there raises;
  \<^item> bcryptjs, symbolically: a hash is the triple of cost, salt and key bytes.
\<close>

subsection \<open>bcryptjs\<close>

text \<open>
  \<^verbatim>\<open>SALT_ROUNDS\<close> is what \<^verbatim>\<open>parseInt\<close> made of the configured setting: an integer, or
  \<^verbatim>\<open>NaN\<close> when the setting does not start with a number. (An infinite result, from a
  setting of several hundred digits, is treated by bcryptjs like any integer beyond its
  bounds and is represented by one.)
\<close>

datatype number = NaN | Integer int

text \<open>
  \<^verbatim>\<open>bcrypt.hashSync(s, rounds)\<close> with a number as second argument first makes a salt
  (\<^verbatim>\<open>genSaltSync(rounds)\<close>): a rounds value of 0 or \<^verbatim>\<open>NaN\<close> is read as the default 10,
  a value below 4 is raised to 4 and a value above 31 lowered to 31, and random bytes
  are drawn; the salt carries the resulting cost and the bytes. The hash is then
  computed from the salt and the key: the bytes of the plaintext followed by a zero
  byte, read cyclically, of which the key schedule takes 72. The output string carries
  the cost and the salt in clear, followed by the digest.

  The model keeps a hash as a symbolic value (cost, drawn bytes and the 72 key bytes)
  and makes the bytes drawn an argument; a plaintext is given as its UTF-8 bytes.
  \<^verbatim>\<open>compareSync\<close> (used by the login route) re-hashes the candidate with the cost and
  salt of the stored hash, here always a hash that \<^verbatim>\<open>hashSync\<close> produced.
\<close>

datatype bcrypt = Bcrypt (cost: nat) (salt: string) (key72: string)

fun clamp_rounds :: "number \<Rightarrow> nat" where
  "clamp_rounds NaN = 10"
| "clamp_rounds (Integer rounds) =
     (if rounds = 0 then 10 else if rounds < 4 then 4 else if 31 < rounds then 31 else nat rounds)"

definition genSaltSync :: "number \<Rightarrow> string \<Rightarrow> nat \<times> string" where
  "genSaltSync rounds drawn = (clamp_rounds rounds, drawn)"

definition key_bytes :: "string \<Rightarrow> string" where
  "key_bytes s = take 72 (concat (replicate 72 (s @ [CHR 0x00])))"

definition hash_with :: "string \<Rightarrow> nat \<times> string \<Rightarrow> bcrypt" where
  "hash_with s salt_string = Bcrypt (fst salt_string) (snd salt_string) (key_bytes s)"

definition hashSync :: "string \<Rightarrow> number \<Rightarrow> string \<Rightarrow> bcrypt" where
  "hashSync s rounds drawn_salt = hash_with s (genSaltSync rounds drawn_salt)"

definition compareSync :: "string \<Rightarrow> bcrypt \<Rightarrow> bool" where
  "compareSync s h = (hash_with s (cost h, salt h) = h)"

subsection \<open>MySQL: values, tables, statements\<close>

datatype sqlval = Null | Num int | Str string | Hashed bcrypt

type_synonym row = "(string \<times> sqlval) list"

text \<open>
  A table: its columns in order (field name and the definition fragment as written in
  the DDL), the columns that carry a PRIMARY KEY or UNIQUE index, and its rows. A row
  holds the values the INSERT supplied; a column the INSERT left out (AUTO\_INCREMENT
  ids, defaults) is absent from the row and reads as NULL.
\<close>

record table =
  columns :: "(string \<times> string) list"
  uniques :: "string list"
  rows :: "row list"

type_synonym database = "(string \<times> table) list"

datatype stmt =
    CreateTableIfNotExists string "(string \<times> string) list" "string list" "string list"
      \<comment> \<open>table, columns, PRIMARY KEY / UNIQUE columns, tables referenced by FOREIGN KEYs\<close>
  | InsertIgnore string row
  | InsertInto string row
  | AlterAddColumn string string string
  | AlterModifyColumn string string string
  | ShowTablesLike string
  | ShowColumnsFrom string
  | ShowColumnsFromLike string string
  | SelectFrom string string
      \<comment> \<open>\<^verbatim>\<open>SELECT column FROM table\<close>\<close>

datatype sql_error =
    ER_NO_SUCH_TABLE string
  | ER_DUP_FIELDNAME string
  | ER_BAD_FIELD_ERROR string
  | ER_DUP_ENTRY string
  | ER_FK_CANNOT_OPEN_PARENT string
  | ER_OTHER
      \<comment> \<open>a failure that the oracle decides\<close>

text \<open>
  SQL \<^verbatim>\<open>LIKE\<close>: \<^verbatim>\<open>%\<close> matches any run of characters, \<^verbatim>\<open>_\<close> any one character, every
  other character itself. (Backslash escapes and collation are not modelled: no name
  in the server contains a backslash, and names are compared byte for byte.)
\<close>

fun like :: "string \<Rightarrow> string \<Rightarrow> bool" where
  "like [] s = (s = [])"
| "like (p # ps) [] = (p = CHR ''%'' \<and> like ps [])"
| "like (p # ps) (c # cs) =
     (if p = CHR ''%'' then like ps (c # cs) \<or> like (p # ps) cs
      else (p = CHR ''_'' \<or> p = c) \<and> like ps cs)"

definition field_names :: "table \<Rightarrow> string list" where
  "field_names t = map fst (columns t)"

definition cell :: "row \<Rightarrow> string \<Rightarrow> sqlval" where
  "cell r c = (case map_of r c of None \<Rightarrow> Null | Some v \<Rightarrow> v)"

text \<open>
  An INSERT collides when, for some PRIMARY KEY or UNIQUE column, it supplies a
  non-NULL value that a row of the table already has in that column.
\<close>

definition duplicate_key :: "table \<Rightarrow> row \<Rightarrow> bool" where
  "duplicate_key t vals =
     list_ex (\<lambda>u. cell vals u \<noteq> Null \<and> list_ex (\<lambda>r. cell r u = cell vals u) (rows t))
       (uniques t)"

definition unknown_fields :: "table \<Rightarrow> row \<Rightarrow> string list" where
  "unknown_fields t vals = filter (\<lambda>c. c \<notin> set (field_names t)) (map fst vals)"

definition modify_column :: "string \<Rightarrow> string \<Rightarrow> (string \<times> string) list \<Rightarrow> (string \<times> string) list" where
  "modify_column c d cols = map (\<lambda>(f, x). if f = c then (f, d) else (f, x)) cols"

text \<open>
  One statement against the database: the error MySQL raises, or the result rows and
  the new database.
  \<^item> \<^verbatim>\<open>CREATE TABLE IF NOT EXISTS\<close> leaves an existing table as it is; a new table
    whose FOREIGN KEY names a table that does not exist is refused.
  \<^item> \<^verbatim>\<open>INSERT IGNORE\<close> drops a row that collides on a unique key and succeeds; plain
    \<^verbatim>\<open>INSERT\<close> raises on the collision. Both raise on a missing table or column.
  \<^item> \<^verbatim>\<open>ALTER TABLE ADD COLUMN\<close> raises when the column exists, \<^verbatim>\<open>MODIFY COLUMN\<close> when
    it does not; both raise on a missing table.
  \<^item> \<^verbatim>\<open>SHOW TABLES LIKE\<close> never raises; \<^verbatim>\<open>SHOW COLUMNS\<close> and \<^verbatim>\<open>SELECT\<close> raise on a
    missing table.
\<close>

fun exec :: "stmt \<Rightarrow> database \<Rightarrow> sql_error + (row list \<times> database)" where
  "exec (CreateTableIfNotExists n cols uqs refs) db =
     (case map_of db n of
        Some t \<Rightarrow> Inr ([], db)
      | None \<Rightarrow>
          (case filter (\<lambda>r. r \<noteq> n \<and> map_of db r = None) refs of
             r # rs \<Rightarrow> Inl (ER_FK_CANNOT_OPEN_PARENT r)
           | [] \<Rightarrow> Inr ([], AList.update n \<lparr>columns = cols, uniques = uqs, rows = []\<rparr> db)))"
| "exec (InsertIgnore n vals) db =
     (case map_of db n of
        None \<Rightarrow> Inl (ER_NO_SUCH_TABLE n)
      | Some t \<Rightarrow>
          (case unknown_fields t vals of
             c # cs \<Rightarrow> Inl (ER_BAD_FIELD_ERROR c)
           | [] \<Rightarrow>
               if duplicate_key t vals then Inr ([], db)
               else Inr ([], AList.update n (t\<lparr>rows := rows t @ [vals]\<rparr>) db)))"
| "exec (InsertInto n vals) db =
     (case map_of db n of
        None \<Rightarrow> Inl (ER_NO_SUCH_TABLE n)
      | Some t \<Rightarrow>
          (case unknown_fields t vals of
             c # cs \<Rightarrow> Inl (ER_BAD_FIELD_ERROR c)
           | [] \<Rightarrow>
               if duplicate_key t vals then Inl (ER_DUP_ENTRY n)
               else Inr ([], AList.update n (t\<lparr>rows := rows t @ [vals]\<rparr>) db)))"
| "exec (AlterAddColumn n c d) db =
     (case map_of db n of
        None \<Rightarrow> Inl (ER_NO_SUCH_TABLE n)
      | Some t \<Rightarrow>
          if c \<in> set (field_names t) then Inl (ER_DUP_FIELDNAME c)
          else Inr ([], AList.update n (t\<lparr>columns := columns t @ [(c, d)]\<rparr>) db))"
| "exec (AlterModifyColumn n c d) db =
     (case map_of db n of
        None \<Rightarrow> Inl (ER_NO_SUCH_TABLE n)
      | Some t \<Rightarrow>
          if c \<in> set (field_names t)
          then Inr ([], AList.update n (t\<lparr>columns := modify_column c d (columns t)\<rparr>) db)
          else Inl (ER_BAD_FIELD_ERROR c))"
| "exec (ShowTablesLike p) db =
     Inr (map (\<lambda>n. [(''Tables_in_db'', Str n)]) (filter (like p) (map fst db)), db)"
| "exec (ShowColumnsFrom n) db =
     (case map_of db n of
        None \<Rightarrow> Inl (ER_NO_SUCH_TABLE n)
      | Some t \<Rightarrow> Inr (map (\<lambda>(f, d). [(''Field'', Str f), (''Type'', Str d)]) (columns t), db))"
| "exec (ShowColumnsFromLike n p) db =
     (case map_of db n of
        None \<Rightarrow> Inl (ER_NO_SUCH_TABLE n)
      | Some t \<Rightarrow>
          Inr (map (\<lambda>(f, d). [(''Field'', Str f), (''Type'', Str d)])
                 (filter (\<lambda>(f, d). like p f) (columns t)), db))"
| "exec (SelectFrom c n) db =
     (case map_of db n of
        None \<Rightarrow> Inl (ER_NO_SUCH_TABLE n)
      | Some t \<Rightarrow>
          if c \<in> set (field_names t) then Inr (map (\<lambda>r. [(c, cell r c)]) (rows t), db)
          else Inl (ER_BAD_FIELD_ERROR c))"

text \<open>
  The pool is created with \<^verbatim>\<open>multipleStatements: true\<close>: one query may carry several
  statements. They run in order; the first error stops the query, and what the earlier
  statements did stays (DDL and autocommitted inserts are not rolled back). The result
  is that of the last statement.
\<close>

fun exec_all :: "stmt list \<Rightarrow> row list \<Rightarrow> database \<Rightarrow> (sql_error + row list) \<times> database" where
  "exec_all [] rs db = (Inr rs, db)"
| "exec_all (s # ss) rs db =
     (case exec s db of
        Inl e \<Rightarrow> (Inl e, db)
      | Inr (rs', db') \<Rightarrow> exec_all ss rs' db')"

subsection \<open>The world: database and trace\<close>

text \<open>The console lines of the startup code, with their interpolated values.\<close>

datatype message =
    RunningCriticalSchemaCheck
      \<comment> \<open>\<^verbatim>\<open>Running critical schema check...\<close>\<close>
  | AutoRepairAdding string string
      \<comment> \<open>\<^verbatim>\<open>Auto-repair: Adding '<column>' to <table>\<close>\<close>
  | ErrorCheckingColumn string string sql_error
      \<comment> \<open>\<^verbatim>\<open>Error checking column <column> in <table>:\<close> and the error's message\<close>
  | AutoRepairEquipmentIdNullable
      \<comment> \<open>\<^verbatim>\<open>Auto-repair: Making legacy column 'equipmentId' NULLABLE to fix Insert error.\<close>\<close>
  | AutoRepairWarningEquipmentId sql_error
      \<comment> \<open>\<^verbatim>\<open>Auto-repair warning for equipmentId:\<close> and the error's message\<close>
  | AutoRepairTimestampDefault
      \<comment> \<open>\<^verbatim>\<open>Auto-repair: Ensuring 'timestamp' has DEFAULT CURRENT_TIMESTAMP.\<close>\<close>
  | AutoRepairWarningTimestamp sql_error
      \<comment> \<open>\<^verbatim>\<open>Auto-repair warning for timestamp:\<close> and the error's message\<close>
  | AutoRepairAuditLogTimestampDefault
      \<comment> \<open>\<^verbatim>\<open>Auto-repair: Ensuring audit_log 'timestamp' has DEFAULT CURRENT_TIMESTAMP.\<close>\<close>
  | AutoRepairWarningAuditLogTimestamp sql_error
      \<comment> \<open>\<^verbatim>\<open>Auto-repair warning for audit_log timestamp:\<close> and the error's message\<close>
  | CriticalSchemaCheckComplete
      \<comment> \<open>\<^verbatim>\<open>Critical schema check complete.\<close>\<close>
  | CheckingDatabaseMigrations
      \<comment> \<open>\<^verbatim>\<open>Checking database migrations...\<close>\<close>
  | RunningMigration int
      \<comment> \<open>\<^verbatim>\<open>Running migration <id>...\<close>\<close>
  | MigrationCompleted int
      \<comment> \<open>\<^verbatim>\<open>Migration <id> completed.\<close>\<close>
  | MigrationFailedId int sql_error
      \<comment> \<open>\<^verbatim>\<open>Migration <id> failed:\<close> and the error's message\<close>
  | MigrationsCheckComplete
      \<comment> \<open>\<^verbatim>\<open>Migrations check complete.\<close>\<close>
  | MigrationFailed sql_error
      \<comment> \<open>\<^verbatim>\<open>Migration failed:\<close> and the error, from the outer catch\<close>

text \<open>
  What the code did, in order: a connection obtained or released, a query sent (with
  all its statements), a line printed by \<^verbatim>\<open>console.log\<close> or by \<^verbatim>\<open>console.error\<close>.
\<close>

datatype event =
    Acquire
  | Release
  | Query "stmt list"
  | ConsoleLog message
  | ConsoleError message

record world =
  tables :: database
  trace :: "event list"

definition console_log :: "message \<Rightarrow> world \<Rightarrow> world" where
  "console_log m w = w\<lparr>trace := trace w @ [ConsoleLog m]\<rparr>"

definition console_error :: "message \<Rightarrow> world \<Rightarrow> world" where
  "console_error m w = w\<lparr>trace := trace w @ [ConsoleError m]\<rparr>"

text \<open>
  \<^verbatim>\<open>connection.query(sql)\<close>: the query is sent (and traced); it raises \<open>ER_OTHER\<close> and
  leaves the database alone when the oracle says so, and otherwise does what MySQL does.
\<close>

definition query :: "(nat \<Rightarrow> bool) \<Rightarrow> stmt list \<Rightarrow> world \<Rightarrow> (sql_error + row list) \<times> world" where
  "query fails sqls w =
     (if fails (length (trace w))
      then (Inl ER_OTHER, w\<lparr>trace := trace w @ [Query sqls]\<rparr>)
      else (case exec_all sqls [] (tables w) of
              (res, db') \<Rightarrow> (res, \<lparr>tables = db', trace = trace w @ [Query sqls]\<rparr>)))"

text \<open>\<^verbatim>\<open>db.promise().getConnection()\<close> and \<^verbatim>\<open>connection.release()\<close>.\<close>

definition getConnection :: "(nat \<Rightarrow> bool) \<Rightarrow> world \<Rightarrow> (sql_error + unit) \<times> world" where
  "getConnection fails w =
     (if fails (length (trace w)) then (Inl ER_OTHER, w)
      else (Inr (), w\<lparr>trace := trace w @ [Acquire]\<rparr>))"

definition release :: "world \<Rightarrow> world" where
  "release w = w\<lparr>trace := trace w @ [Release]\<rparr>"

text \<open>The oracle under which no call fails for an outside reason.\<close>

definition no_failures :: "nat \<Rightarrow> bool" where
  "no_failures k = False"

subsection \<open>The schema repair pass\<close>

text \<open>
  \<^verbatim>\<open>checkAndAddColumn\<close>, the local helper of \<^verbatim>\<open>ensureCriticalSchema\<close>. Its whole body is
  one \<^verbatim>\<open>try\<close>: whichever query raises, the \<^verbatim>\<open>catch\<close> prints the error and the helper
  returns normally.
\<close>

definition checkAndAddColumn :: "(nat \<Rightarrow> bool) \<Rightarrow> string \<Rightarrow> string \<Rightarrow> string \<Rightarrow> world \<Rightarrow> world" where
  "checkAndAddColumn fails tableName columnName columnDef w =
     (case query fails [ShowTablesLike tableName] w of
        (Inl err, w1) \<Rightarrow> console_error (ErrorCheckingColumn columnName tableName err) w1
      | (Inr tableExists, w1) \<Rightarrow>
          if length tableExists = 0 then w1
          else
            (case query fails [ShowColumnsFrom tableName] w1 of
               (Inl err, w2) \<Rightarrow> console_error (ErrorCheckingColumn columnName tableName err) w2
             | (Inr cols, w2) \<Rightarrow>
                 let columnNames = map (\<lambda>c. cell c ''Field'') cols in
                 if Str columnName \<notin> set columnNames then
                   (case query fails [AlterAddColumn tableName columnName columnDef]
                           (console_log (AutoRepairAdding columnName tableName) w2) of
                      (Inl err, w3) \<Rightarrow>
                        console_error (ErrorCheckingColumn columnName tableName err) w3
                    | (Inr r, w3) \<Rightarrow> w3)
                 else w2))"

text \<open>
  The three targeted repairs share one shape: probe the column with
  \<^verbatim>\<open>SHOW COLUMNS FROM <table> LIKE '<column>'\<close>; when a row comes back, print a line and
  issue \<^verbatim>\<open>ALTER TABLE <table> MODIFY COLUMN <column> <definition>\<close>; an error at either
  query is caught and printed as a warning.
\<close>

definition modifyIfPresent :: "(nat \<Rightarrow> bool) \<Rightarrow> string \<Rightarrow> string \<Rightarrow> string \<Rightarrow> message \<Rightarrow> (sql_error \<Rightarrow> message) \<Rightarrow> world \<Rightarrow> world" where
  "modifyIfPresent fails tableName columnName columnDef note warning w =
     (case query fails [ShowColumnsFromLike tableName columnName] w of
        (Inl err, w1) \<Rightarrow> console_error (warning err) w1
      | (Inr cols, w1) \<Rightarrow>
          if length cols > 0 then
            (case query fails [AlterModifyColumn tableName columnName columnDef]
                    (console_log note w1) of
               (Inl err, w2) \<Rightarrow> console_error (warning err) w2
             | (Inr r, w2) \<Rightarrow> w2)
          else w1)"

text \<open>The rules of step 1 and the first rule of step 2, in the order of the calls.\<close>

definition condicaoTermoDef :: string where
  "condicaoTermoDef =
     ''ENUM('Assinado - Entrega', 'Assinado - Devolu'' @ [CHR 0xC3, CHR 0xA7, CHR 0xC3, CHR 0xA3]
       @ ''o', 'Pendente', 'N/A') DEFAULT 'N/A'' @ [CHR 0x27]"

definition approvalStatusDef :: string where
  "approvalStatusDef = ''VARCHAR(50) DEFAULT 'approved'' @ [CHR 0x27]"

definition repairRules :: "(string \<times> string \<times> string) list" where
  "repairRules =
     [(''licenses'', ''empresa'', ''VARCHAR(255) NULL''),
      (''licenses'', ''observacoes'', ''TEXT''),
      (''licenses'', ''approval_status'', approvalStatusDef),
      (''licenses'', ''rejection_reason'', ''TEXT''),
      (''licenses'', ''created_by_id'', ''INT NULL''),
      (''equipment'', ''observacoes'', ''TEXT''),
      (''equipment'', ''approval_status'', approvalStatusDef),
      (''equipment'', ''rejection_reason'', ''TEXT''),
      (''equipment'', ''created_by_id'', ''INT NULL''),
      (''equipment'', ''emailColaborador'', ''VARCHAR(255)''),
      (''equipment'', ''brand'', ''VARCHAR(100)''),
      (''equipment'', ''model'', ''VARCHAR(100)''),
      (''equipment'', ''identificador'', ''VARCHAR(255)''),
      (''equipment'', ''nomeSO'', ''VARCHAR(255)''),
      (''equipment'', ''memoriaFisicaTotal'', ''VARCHAR(100)''),
      (''equipment'', ''grupoPoliticas'', ''VARCHAR(100)''),
      (''equipment'', ''pais'', ''VARCHAR(100)''),
      (''equipment'', ''cidade'', ''VARCHAR(100)''),
      (''equipment'', ''estadoProvincia'', ''VARCHAR(100)''),
      (''equipment'', ''condicaoTermo'', condicaoTermoDef),
      (''users'', ''twoFASecret'', ''VARCHAR(255) NULL''),
      (''users'', ''is2FAEnabled'', ''BOOLEAN DEFAULT FALSE''),
      (''users'', ''avatarUrl'', ''MEDIUMTEXT''),
      (''equipment_history'', ''equipment_id'', ''INT'')]"

text \<open>The calls of \<^verbatim>\<open>checkAndAddColumn\<close>, one after the other.\<close>

fun checkAndAddColumns :: "(nat \<Rightarrow> bool) \<Rightarrow> (string \<times> string \<times> string) list \<Rightarrow> world \<Rightarrow> world" where
  "checkAndAddColumns fails [] w = w"
| "checkAndAddColumns fails ((t, c, d) # rules) w =
     checkAndAddColumns fails rules (checkAndAddColumn fails t c d w)"

definition ensureCriticalSchema :: "(nat \<Rightarrow> bool) \<Rightarrow> world \<Rightarrow> world" where
  "ensureCriticalSchema fails w =
     (let w1 = checkAndAddColumns fails repairRules (console_log RunningCriticalSchemaCheck w);
          w2 = modifyIfPresent fails ''equipment_history'' ''equipmentId'' ''INT NULL''
                 AutoRepairEquipmentIdNullable AutoRepairWarningEquipmentId w1;
          w3 = modifyIfPresent fails ''equipment_history'' ''timestamp''
                 ''DATETIME DEFAULT CURRENT_TIMESTAMP''
                 AutoRepairTimestampDefault AutoRepairWarningTimestamp w2;
          w4 = modifyIfPresent fails ''audit_log'' ''timestamp''
                 ''DATETIME DEFAULT CURRENT_TIMESTAMP''
                 AutoRepairAuditLogTimestampDefault AutoRepairWarningAuditLogTimestamp w3
      in console_log CriticalSchemaCheckComplete w4)"

subsection \<open>The fixed migrations\<close>

record migration =
  mid :: int
  sql :: "stmt list"

definition adminRow :: "bcrypt \<Rightarrow> row" where
  "adminRow h =
     [(''username'', Str ''admin''), (''realName'', Str ''Admin''),
      (''email'', Str ''admin@example.com''), (''password'', Hashed h),
      (''role'', Str ''Admin'')]"

definition configRow :: "string \<Rightarrow> sqlval \<Rightarrow> row" where
  "configRow k v = [(''config_key'', Str k), (''config_value'', v)]"

text \<open>
  The list is built inside \<^verbatim>\<open>runMigrations\<close> on every run; the template literal of
  migration 7 holds the call of \<^verbatim>\<open>bcrypt.hashSync\<close>, whose value \<open>h\<close> is therefore
  computed while the list is built.
\<close>

definition migrations :: "bcrypt \<Rightarrow> migration list" where
  "migrations h =
     [\<lparr>mid = 1, sql = [CreateTableIfNotExists ''users''
          [(''id'', ''INT AUTO_INCREMENT PRIMARY KEY''),
           (''username'', ''VARCHAR(255) NOT NULL UNIQUE''),
           (''realName'', ''VARCHAR(255) NOT NULL''),
           (''email'', ''VARCHAR(255) NOT NULL UNIQUE''),
           (''password'', ''VARCHAR(255) NOT NULL''),
           (''role'', ''ENUM('Admin', 'User Manager', 'User') NOT NULL''),
           (''lastLogin'', ''DATETIME''),
           (''is2FAEnabled'', ''BOOLEAN DEFAULT FALSE''),
           (''twoFASecret'', ''VARCHAR(255)''),
           (''ssoProvider'', ''VARCHAR(50) NULL''),
           (''avatarUrl'', ''MEDIUMTEXT'')]
          [''id'', ''username'', ''email''] [] ]\<rparr>,
      \<lparr>mid = 2, sql = [CreateTableIfNotExists ''equipment''
          [(''id'', ''INT AUTO_INCREMENT PRIMARY KEY''),
           (''equipamento'', ''VARCHAR(255) NOT NULL''),
           (''garantia'', ''VARCHAR(255)''),
           (''patrimonio'', ''VARCHAR(255) UNIQUE''),
           (''serial'', ''VARCHAR(255) UNIQUE''),
           (''usuarioAtual'', ''VARCHAR(255)''),
           (''usuarioAnterior'', ''VARCHAR(255)''),
           (''local'', ''VARCHAR(255)''),
           (''setor'', ''VARCHAR(255)''),
           (''dataEntregaUsuario'', ''VARCHAR(255)''),
           (''status'', ''VARCHAR(255)''),
           (''dataDevolucao'', ''VARCHAR(255)''),
           (''tipo'', ''VARCHAR(255)''),
           (''notaCompra'', ''VARCHAR(255)''),
           (''notaPlKm'', ''VARCHAR(255)''),
           (''termoResponsabilidade'', ''VARCHAR(255)''),
           (''foto'', ''TEXT''),
           (''qrCode'', ''TEXT''),
           (''observacoes'', ''TEXT''),
           (''approval_status'', approvalStatusDef),
           (''rejection_reason'', ''TEXT'')]
          [''id'', ''patrimonio'', ''serial''] [] ]\<rparr>,
      \<lparr>mid = 3, sql = [CreateTableIfNotExists ''licenses''
          [(''id'', ''INT AUTO_INCREMENT PRIMARY KEY''),
           (''produto'', ''VARCHAR(255) NOT NULL''),
           (''tipoLicenca'', ''VARCHAR(255)''),
           (''chaveSerial'', ''VARCHAR(255) NOT NULL''),
           (''dataExpiracao'', ''VARCHAR(255)''),
           (''usuario'', ''VARCHAR(255) NOT NULL''),
           (''cargo'', ''VARCHAR(255)''),
           (''setor'', ''VARCHAR(255)''),
           (''gestor'', ''VARCHAR(255)''),
           (''centroCusto'', ''VARCHAR(255)''),
           (''contaRazao'', ''VARCHAR(255)''),
           (''nomeComputador'', ''VARCHAR(255)''),
           (''numeroChamado'', ''VARCHAR(255)''),
           (''observacoes'', ''TEXT''),
           (''approval_status'', approvalStatusDef),
           (''rejection_reason'', ''TEXT'')]
          [''id''] [] ]\<rparr>,
      \<lparr>mid = 4, sql = [CreateTableIfNotExists ''equipment_history''
          [(''id'', ''INT AUTO_INCREMENT PRIMARY KEY''),
           (''equipment_id'', ''INT''),
           (''timestamp'', ''DATETIME DEFAULT CURRENT_TIMESTAMP''),
           (''changedBy'', ''VARCHAR(255)''),
           (''changeType'', ''VARCHAR(255)''),
           (''from_value'', ''TEXT''),
           (''to_value'', ''TEXT'')]
          [''id''] [''equipment''] ]\<rparr>,
      \<lparr>mid = 5, sql = [CreateTableIfNotExists ''audit_log''
          [(''id'', ''INT AUTO_INCREMENT PRIMARY KEY''),
           (''timestamp'', ''DATETIME DEFAULT CURRENT_TIMESTAMP''),
           (''username'', ''VARCHAR(255)''),
           (''action_type'', ''VARCHAR(255)''),
           (''target_type'', ''VARCHAR(255)''),
           (''target_id'', ''VARCHAR(255)''),
           (''details'', ''TEXT'')]
          [''id''] [] ]\<rparr>,
      \<lparr>mid = 6, sql = [CreateTableIfNotExists ''app_config''
          [(''id'', ''INT AUTO_INCREMENT PRIMARY KEY''),
           (''config_key'', ''VARCHAR(255) NOT NULL UNIQUE''),
           (''config_value'', ''TEXT'')]
          [''id'', ''config_key''] [] ]\<rparr>,
      \<lparr>mid = 7, sql = [InsertIgnore ''users'' (adminRow h)]\<rparr>,
      \<lparr>mid = 8, sql = [InsertIgnore ''app_config'' (configRow ''companyName'' (Str ''MRR INFORMATICA'')),
                       InsertIgnore ''app_config'' (configRow ''isSsoEnabled'' (Str ''false''))]\<rparr>,
      \<lparr>mid = 9, sql = [AlterAddColumn ''equipment'' ''emailColaborador'' ''VARCHAR(255)'']\<rparr>,
      \<lparr>mid = 10, sql = [InsertIgnore ''app_config'' (configRow ''termo_entrega_template'' Null),
                        InsertIgnore ''app_config'' (configRow ''termo_devolucao_template'' Null)]\<rparr>,
      \<lparr>mid = 11, sql = [AlterAddColumn ''users'' ''avatarUrl'' ''MEDIUMTEXT'']\<rparr>,
      \<lparr>mid = 12, sql = [AlterModifyColumn ''users'' ''avatarUrl'' ''MEDIUMTEXT'']\<rparr>,
      \<lparr>mid = 13, sql = [AlterAddColumn ''licenses'' ''created_by_id'' ''INT NULL'']\<rparr>,
      \<lparr>mid = 14, sql = [AlterAddColumn ''equipment'' ''created_by_id'' ''INT NULL'']\<rparr>,
      \<lparr>mid = 15, sql = [InsertIgnore ''app_config'' (configRow ''is2faEnabled'' (Str ''false''))]\<rparr>]"

subsection \<open>The migration runner\<close>

text \<open>
  The body of the \<^verbatim>\<open>for\<close> loop. \<open>executedMigrationIds\<close> is the set read before the
  loop; the loop never updates it. The \<^verbatim>\<open>try\<close> covers both the migration's own SQL and
  the INSERT that records its id.
\<close>

definition recordMigration :: "int \<Rightarrow> stmt" where
  "recordMigration i = InsertInto ''migrations'' [(''id'', Num i)]"

definition runMigration :: "(nat \<Rightarrow> bool) \<Rightarrow> sqlval set \<Rightarrow> migration \<Rightarrow> world \<Rightarrow> world" where
  "runMigration fails executedMigrationIds m w =
     (if Num (mid m) \<notin> executedMigrationIds then
        (case query fails (sql m) (console_log (RunningMigration (mid m)) w) of
           (Inl err, w1) \<Rightarrow> console_error (MigrationFailedId (mid m) err) w1
         | (Inr r, w1) \<Rightarrow>
             (case query fails [recordMigration (mid m)] w1 of
                (Inl err, w2) \<Rightarrow> console_error (MigrationFailedId (mid m) err) w2
              | (Inr r', w2) \<Rightarrow> console_log (MigrationCompleted (mid m)) w2))
      else w)"

text \<open>The \<^verbatim>\<open>for\<close> loop over the list.\<close>

fun runPending :: "(nat \<Rightarrow> bool) \<Rightarrow> sqlval set \<Rightarrow> migration list \<Rightarrow> world \<Rightarrow> world" where
  "runPending fails executedMigrationIds [] w = w"
| "runPending fails executedMigrationIds (m # ms) w =
     runPending fails executedMigrationIds ms (runMigration fails executedMigrationIds m w)"

definition createMigrationsTable :: stmt where
  "createMigrationsTable = CreateTableIfNotExists ''migrations'' [(''id'', ''INT PRIMARY KEY'')] [''id''] []"


text \<open>
  The body of \<^verbatim>\<open>runMigrations\<close>, with the list it builds taken as an argument (so that a
  run with an edited list can be stated). An error before the loop goes to the outer
  \<^verbatim>\<open>catch\<close>; the \<^verbatim>\<open>finally\<close> releases the connection when one was obtained.
\<close>

definition runMigrationsWith :: "(nat \<Rightarrow> bool) \<Rightarrow> migration list \<Rightarrow> world \<Rightarrow> world" where
  "runMigrationsWith fails ms w =
     (case getConnection fails (console_log CheckingDatabaseMigrations w) of
        (Inl error, w1) \<Rightarrow> console_error (MigrationFailed error) w1
      | (Inr connection, w1) \<Rightarrow>
          release
            (case query fails [createMigrationsTable] w1 of
               (Inl error, w2) \<Rightarrow> console_error (MigrationFailed error) w2
             | (Inr r, w2) \<Rightarrow>
                 (case query fails [SelectFrom ''id'' ''migrations''] w2 of
                    (Inl error, w3) \<Rightarrow> console_error (MigrationFailed error) w3
                  | (Inr executedRows, w3) \<Rightarrow>
                      let executedMigrationIds = set (map (\<lambda>r. cell r ''id'') executedRows);
                          w4 = ensureCriticalSchema fails w3;
                          w5 = runPending fails executedMigrationIds ms w4
                      in console_log MigrationsCheckComplete w5)))"

text \<open>
  \<^verbatim>\<open>runMigrations\<close>: \<open>SALT_ROUNDS\<close> is the configured number and \<open>drawn_salt\<close> the bytes that
  bcryptjs draws for the one \<^verbatim>\<open>hashSync\<close> call made while this run builds its list.
\<close>

definition runMigrations :: "(nat \<Rightarrow> bool) \<Rightarrow> number \<Rightarrow> string \<Rightarrow> world \<Rightarrow> world" where
  "runMigrations fails SALT_ROUNDS drawn_salt w =
     runMigrationsWith fails (migrations (hashSync ''marceloadmin'' SALT_ROUNDS drawn_salt)) w"

text \<open>Successive startups, each with its own oracle, configured rounds and drawn salt.\<close>

fun startups :: "((nat \<Rightarrow> bool) \<times> number \<times> string) list \<Rightarrow> world \<Rightarrow> world" where
  "startups [] w = w"
| "startups ((fails, SALT_ROUNDS, drawn_salt) # runs) w =
     startups runs (runMigrations fails SALT_ROUNDS drawn_salt w)"

subsection \<open>Notions used to state the properties\<close>

definition rows_in :: "database \<Rightarrow> string \<Rightarrow> row list" where
  "rows_in db n = (case map_of db n of None \<Rightarrow> [] | Some t \<Rightarrow> rows t)"

definition table_rows :: "string \<Rightarrow> world \<Rightarrow> row list" where
  "table_rows n w = rows_in (tables w) n"

text \<open>The ids recorded in the bookkeeping table (none when the table does not exist).\<close>

definition applied_ids :: "world \<Rightarrow> sqlval set" where
  "applied_ids w = set (map (\<lambda>r. cell r ''id'') (table_rows ''migrations'' w))"

definition empty_world :: world where
  "empty_world = \<lparr>tables = [], trace = []\<rparr>"

text \<open>What a step added to the trace.\<close>

definition new_events :: "world \<Rightarrow> world \<Rightarrow> event list" where
  "new_events w w' = drop (length (trace w)) (trace w')"

text \<open>Nothing is taken back: the trace and the rows of every table only get longer.\<close>

definition grows :: "world \<Rightarrow> world \<Rightarrow> bool" where
  "grows w w' =
     (prefix (trace w) (trace w') \<and> (\<forall>n. prefix (table_rows n w) (table_rows n w')))"

text \<open>The migrations of a list whose id is not in the set read from the bookkeeping table.\<close>

definition pending :: "sqlval set \<Rightarrow> migration list \<Rightarrow> migration list" where
  "pending S ms = filter (\<lambda>m. Num (mid m) \<notin> S) ms"

text \<open>
  The three ways one pass through the loop body can go for a pending migration, and
  the events each leaves: the console line, the migration's SQL, and then either the
  failure line, or the bookkeeping INSERT followed by the failure or completion line.
\<close>

datatype outcome = SqlFailed sql_error | RecordFailed sql_error | Completed

fun attempt :: "migration \<Rightarrow> outcome \<Rightarrow> event list" where
  "attempt m (SqlFailed e) =
     [ConsoleLog (RunningMigration (mid m)), Query (sql m),
      ConsoleError (MigrationFailedId (mid m) e)]"
| "attempt m (RecordFailed e) =
     [ConsoleLog (RunningMigration (mid m)), Query (sql m), Query [recordMigration (mid m)],
      ConsoleError (MigrationFailedId (mid m) e)]"
| "attempt m Completed =
     [ConsoleLog (RunningMigration (mid m)), Query (sql m), Query [recordMigration (mid m)],
      ConsoleLog (MigrationCompleted (mid m))]"

fun attempts :: "migration list \<Rightarrow> outcome list \<Rightarrow> event list" where
  "attempts (m # ms) (out # outs) = attempt m out @ attempts ms outs"
| "attempts ms outs = []"

text \<open>The events of the repair pass: probes, ALTERs and its own console lines.\<close>

definition repair_stmt :: "stmt \<Rightarrow> bool" where
  "repair_stmt s =
     (case s of
        ShowTablesLike p \<Rightarrow> True
      | ShowColumnsFrom n \<Rightarrow> True
      | ShowColumnsFromLike n p \<Rightarrow> True
      | AlterAddColumn n c d \<Rightarrow> True
      | AlterModifyColumn n c d \<Rightarrow> True
      | _ \<Rightarrow> False)"

definition repair_message :: "message \<Rightarrow> bool" where
  "repair_message m =
     (case m of
        AutoRepairAdding c t \<Rightarrow> True
      | ErrorCheckingColumn c t e \<Rightarrow> True
      | AutoRepairEquipmentIdNullable \<Rightarrow> True
      | AutoRepairWarningEquipmentId e \<Rightarrow> True
      | AutoRepairTimestampDefault \<Rightarrow> True
      | AutoRepairWarningTimestamp e \<Rightarrow> True
      | AutoRepairAuditLogTimestampDefault \<Rightarrow> True
      | AutoRepairWarningAuditLogTimestamp e \<Rightarrow> True
      | _ \<Rightarrow> False)"

definition repair_event :: "event \<Rightarrow> bool" where
  "repair_event e =
     (case e of
        Query sqls \<Rightarrow> (case sqls of [s] \<Rightarrow> repair_stmt s | _ \<Rightarrow> False)
      | ConsoleLog m \<Rightarrow> repair_message m
      | ConsoleError m \<Rightarrow> repair_message m
      | _ \<Rightarrow> False)"

definition repairing :: "world \<Rightarrow> world \<Rightarrow> bool" where
  "repairing w w' = (\<exists>R. trace w' = trace w @ R \<and> list_all repair_event R)"

text \<open>The table a statement names (for \<^verbatim>\<open>SHOW TABLES\<close>, none).\<close>

fun target :: "stmt \<Rightarrow> string option" where
  "target (CreateTableIfNotExists n cols uqs refs) = Some n"
| "target (InsertIgnore n vals) = Some n"
| "target (InsertInto n vals) = Some n"
| "target (AlterAddColumn n c d) = Some n"
| "target (AlterModifyColumn n c d) = Some n"
| "target (ShowTablesLike p) = None"
| "target (ShowColumnsFrom n) = Some n"
| "target (ShowColumnsFromLike n p) = Some n"
| "target (SelectFrom c n) = Some n"

text \<open>
  What the code does to the database when no query fails for an outside reason. A
  statement whose error the code catches either takes effect or leaves the database as
  it was; the repair pass comes to attempting its ALTERs in order, and the loop body to
  the migration's statements followed, when they all succeeded, by the bookkeeping INSERT.
\<close>

definition tolerant :: "stmt \<Rightarrow> database \<Rightarrow> database" where
  "tolerant s db = (case exec s db of Inl e \<Rightarrow> db | Inr (rs, db') \<Rightarrow> db')"

definition repairStatements :: "stmt list" where
  "repairStatements =
     map (\<lambda>(t, c, d). AlterAddColumn t c d) repairRules @
     [AlterModifyColumn ''equipment_history'' ''equipmentId'' ''INT NULL'',
      AlterModifyColumn ''equipment_history'' ''timestamp'' ''DATETIME DEFAULT CURRENT_TIMESTAMP'',
      AlterModifyColumn ''audit_log'' ''timestamp'' ''DATETIME DEFAULT CURRENT_TIMESTAMP'']"

definition repairEffect :: "database \<Rightarrow> database" where
  "repairEffect db = foldl (\<lambda>db s. tolerant s db) db repairStatements"

definition migrationEffect :: "sqlval set \<Rightarrow> database \<Rightarrow> migration \<Rightarrow> database" where
  "migrationEffect S db m =
     (if Num (mid m) \<notin> S then
        (case exec_all (sql m) [] db of
           (Inl e, db1) \<Rightarrow> db1
         | (Inr r, db1) \<Rightarrow> tolerant (recordMigration (mid m)) db1)
      else db)"

definition runEffect :: "migration list \<Rightarrow> database \<Rightarrow> database" where
  "runEffect ms db =
     (let db1 = tolerant createMigrationsTable db in
      case exec (SelectFrom ''id'' ''migrations'') db1 of
        Inl e \<Rightarrow> db1
      | Inr (executedRows, db2) \<Rightarrow>
          foldl (migrationEffect (set (map (\<lambda>r. cell r ''id'') executedRows)))
            (repairEffect db1) ms)"

text \<open>
  When a repair has nothing left to do: the table is missing or has the column; the
  table is missing or every column of that name has the definition.
\<close>

definition has_column :: "string \<Rightarrow> string \<Rightarrow> database \<Rightarrow> bool" where
  "has_column t c db = (case map_of db t of None \<Rightarrow> True | Some tb \<Rightarrow> c \<in> set (field_names tb))"

definition has_definition :: "string \<Rightarrow> string \<Rightarrow> string \<Rightarrow> database \<Rightarrow> bool" where
  "has_definition t c d db =
     (case map_of db t of
        None \<Rightarrow> True
      | Some tb \<Rightarrow> list_all (\<lambda>(f, x). f \<noteq> c \<or> x = d) (columns tb))"

text \<open>The statements of the migration with a given id.\<close>

definition migration_sql :: "int \<Rightarrow> bcrypt \<Rightarrow> stmt list" where
  "migration_sql i h = concat (map sql (filter (\<lambda>m. mid m = i) (migrations h)))"

text \<open>
  An account that holds the seeded username or the seeded email: a row of \<open>users\<close>
  with which the seed row collides on a unique key.
\<close>

definition seeded_account :: "row \<Rightarrow> bool" where
  "seeded_account r =
     (cell r ''username'' = Str ''admin'' \<or> cell r ''email'' = Str ''admin@example.com'')"

text \<open>
  The unique keys that a list of migrations declares for a table, in a
  \<^verbatim>\<open>CREATE TABLE\<close> of that table; and a database in which \<open>users\<close> is missing or
  has the unique keys that the list declares for it.
\<close>

definition declares_keys :: "migration list \<Rightarrow> string \<Rightarrow> string list \<Rightarrow> bool" where
  "declares_keys ms n keys =
     list_ex (\<lambda>m. list_ex (\<lambda>s. case s of
                                   CreateTableIfNotExists n' cols uqs refs \<Rightarrow> n' = n \<and> uqs = keys
                                 | _ \<Rightarrow> False) (sql m)) ms"

definition users_as_declared :: "migration list \<Rightarrow> database \<Rightarrow> bool" where
  "users_as_declared ms db =
     (case map_of db ''users'' of
        None \<Rightarrow> True
      | Some t \<Rightarrow> declares_keys ms ''users'' (uniques t))"

text \<open>
  Statements that create \<open>users\<close> only with the keys of migration 1 and insert into
  \<open>users\<close> only the seed row, with \<^verbatim>\<open>INSERT IGNORE\<close>; and what a sequence of such
  statements can do to \<open>users\<close>: keep its keys, and leave its rows as they are or, when
  no account held the seeded username or email, add the seed row.
\<close>

fun seeds_only :: "bcrypt \<Rightarrow> stmt \<Rightarrow> bool" where
  "seeds_only h (CreateTableIfNotExists n cols uqs refs) =
     (n = ''users'' \<longrightarrow> uqs = [''id'', ''username'', ''email''])"
| "seeds_only h (InsertIgnore n vals) = (n = ''users'' \<longrightarrow> vals = adminRow h)"
| "seeds_only h (InsertInto n vals) = (n \<noteq> ''users'')"
| "seeds_only h s = True"

definition users_keyed :: "database \<Rightarrow> bool" where
  "users_keyed db =
     (case map_of db ''users'' of
        None \<Rightarrow> True
      | Some t \<Rightarrow> uniques t = [''id'', ''username'', ''email''])"

definition seed_step :: "bcrypt \<Rightarrow> database \<Rightarrow> database \<Rightarrow> bool" where
  "seed_step h db db' =
     (users_keyed db' \<and>
      (rows_in db' ''users'' = rows_in db ''users'' \<or>
       (list_all (\<lambda>r. \<not> seeded_account r) (rows_in db ''users'') \<and>
        rows_in db' ''users'' = rows_in db ''users'' @ [adminRow h])))"

section \<open>Properties\<close>

subsection \<open>LIKE\<close>

lemma like_percent: "like ps s \<Longrightarrow> like (CHR ''%'' # ps) s"
  by (cases s) auto

lemma like_refl: "like p p"
  by (induction p) (auto simp: like_percent)

subsection \<open>Statements never remove or change rows\<close>

lemma rows_in_update:
  "rows_in (AList.update k t db) n = (if n = k then rows t else rows_in db n)"
  by (simp add: rows_in_def update_conv')

lemma rows_in_Some: "map_of db n = Some t \<Longrightarrow> rows_in db n = rows t"
  by (simp add: rows_in_def)

lemma rows_in_None: "map_of db n = None \<Longrightarrow> rows_in db n = []"
  by (simp add: rows_in_def)

lemma exec_rows:
  assumes "exec s db = Inr (rs, db')"
  shows "prefix (rows_in db n) (rows_in db' n)"
  using assms
  by (cases s)
     (auto simp: rows_in_update rows_in_Some rows_in_None split: option.splits list.splits if_splits)

lemma exec_all_rows: "prefix (rows_in db n) (rows_in (snd (exec_all ss rs db)) n)"
proof (induction ss arbitrary: rs db)
  case Nil
  show ?case by simp
next
  case (Cons s ss)
  show ?case
  proof (cases "exec s db")
    case (Inl e)
    then show ?thesis by simp
  next
    case (Inr p)
    obtain rs' db' where p: "p = (rs', db')" by (cases p)
    have "prefix (rows_in db n) (rows_in db' n)"
      using Inr p exec_rows by blast
    moreover have "prefix (rows_in db' n) (rows_in (snd (exec_all ss rs' db')) n)"
      by (rule Cons.IH)
    ultimately show ?thesis
      using Inr p by (auto intro: prefix_order.trans)
  qed
qed

lemma exec_other:
  assumes "exec s db = Inr (rs, db')" and "target s \<noteq> Some n"
  shows "map_of db' n = map_of db n"
  using assms
  by (cases s) (auto simp: update_conv' split: option.splits list.splits if_splits)

lemma exec_all_other:
  "list_all (\<lambda>s. target s \<noteq> Some n) ss \<Longrightarrow> map_of (snd (exec_all ss rs db)) n = map_of db n"
proof (induction ss arbitrary: rs db)
  case Nil
  show ?case by simp
next
  case (Cons s ss)
  show ?case
  proof (cases "exec s db")
    case (Inl e)
    then show ?thesis by simp
  next
    case (Inr p)
    obtain rs' db' where p: "p = (rs', db')" by (cases p)
    have "map_of db' n = map_of db n"
      using Inr p Cons.prems exec_other by auto
    moreover have "map_of (snd (exec_all ss rs' db')) n = map_of db' n"
      using Cons.IH Cons.prems by simp
    ultimately show ?thesis
      using Inr p by simp
  qed
qed

lemma tolerant_rows: "prefix (rows_in db n) (rows_in (tolerant s db) n)"
  by (auto simp: tolerant_def exec_rows split: sum.splits)

subsection \<open>Queries\<close>

lemma query_trace: "trace (snd (query fails sqls w)) = trace w @ [Query sqls]"
  by (simp add: query_def split: prod.splits)

lemma query_tables:
  "tables (snd (query fails sqls w)) =
     (if fails (length (trace w)) then tables w else snd (exec_all sqls [] (tables w)))"
  by (simp add: query_def split: prod.splits)

lemma query_fst:
  "fst (query fails sqls w) =
     (if fails (length (trace w)) then Inl ER_OTHER else fst (exec_all sqls [] (tables w)))"
  by (simp add: query_def split: prod.splits)

lemma queryE:
  assumes "query fails sqls w = (r, w1)"
  shows "trace w1 = trace w @ [Query sqls]"
    and "tables w1 = (if fails (length (trace w)) then tables w else snd (exec_all sqls [] (tables w)))"
    and "r = (if fails (length (trace w)) then Inl ER_OTHER else fst (exec_all sqls [] (tables w)))"
  using assms query_trace [of fails sqls w] query_tables [of fails sqls w] query_fst [of fails sqls w]
  by simp_all

subsection \<open>Every step only adds to the trace and to the rows\<close>

lemma grows_refl: "grows w w"
  by (simp add: grows_def)

lemma grows_trans: "grows w w' \<Longrightarrow> grows w' w'' \<Longrightarrow> grows w w''"
  unfolding grows_def by (meson prefix_order.trans)

lemma grows_console_log:
  assumes "grows w w0"
  shows "grows w (console_log m w0)"
proof -
  have "grows w0 (console_log m w0)"
    by (simp add: grows_def console_log_def table_rows_def)
  with assms show ?thesis by (rule grows_trans)
qed

lemma grows_console_error:
  assumes "grows w w0"
  shows "grows w (console_error m w0)"
proof -
  have "grows w0 (console_error m w0)"
    by (simp add: grows_def console_error_def table_rows_def)
  with assms show ?thesis by (rule grows_trans)
qed

lemma grows_release:
  assumes "grows w w0"
  shows "grows w (release w0)"
proof -
  have "grows w0 (release w0)"
    by (simp add: grows_def release_def table_rows_def)
  with assms show ?thesis by (rule grows_trans)
qed

lemma grows_getConnection:
  assumes "getConnection fails w0 = (r, w1)" and "grows w w0"
  shows "grows w w1"
proof -
  have "grows w0 w1"
    using assms(1) by (auto simp: grows_def getConnection_def table_rows_def split: if_splits)
  with assms(2) show ?thesis by (rule grows_trans)
qed

lemma grows_query: "query fails sqls w0 = (r, w1) \<Longrightarrow> grows w w0 \<Longrightarrow> grows w w1"
proof -
  assume q: "query fails sqls w0 = (r, w1)" and g: "grows w w0"
  have "grows w0 w1"
    using queryE [OF q] by (simp add: grows_def table_rows_def exec_all_rows)
  with g show ?thesis by (rule grows_trans)
qed

lemmas grows_steps =
  grows_refl grows_console_log grows_console_error grows_release grows_query grows_getConnection

lemma grows_checkAndAddColumn: "grows w w0 \<Longrightarrow> grows w (checkAndAddColumn fails t c d w0)"
  unfolding checkAndAddColumn_def Let_def
  by (auto split: prod.splits sum.splits) (blast intro: grows_steps)+

lemma grows_modifyIfPresent:
  "grows w w0 \<Longrightarrow> grows w (modifyIfPresent fails t c d note warning w0)"
  unfolding modifyIfPresent_def
  by (auto split: prod.splits sum.splits) (blast intro: grows_steps)+

lemma grows_checkAndAddColumns: "grows w w0 \<Longrightarrow> grows w (checkAndAddColumns fails rules w0)"
  by (induction fails rules w0 rule: checkAndAddColumns.induct)
     (simp_all add: grows_checkAndAddColumn)

lemma grows_ensureCriticalSchema: "grows w w0 \<Longrightarrow> grows w (ensureCriticalSchema fails w0)"
  unfolding ensureCriticalSchema_def Let_def
  by (intro grows_console_log grows_modifyIfPresent grows_checkAndAddColumns)

lemma grows_runMigration: "grows w w0 \<Longrightarrow> grows w (runMigration fails S m w0)"
  unfolding runMigration_def
  by (auto split: prod.splits sum.splits) (blast intro: grows_steps)+

lemma grows_runPending: "grows w w0 \<Longrightarrow> grows w (runPending fails S ms w0)"
  by (induction fails S ms w0 rule: runPending.induct) (simp_all add: grows_runMigration)

lemma grows_runMigrationsWith: "grows w (runMigrationsWith fails ms w)"
  unfolding runMigrationsWith_def Let_def
  by (auto split: prod.splits sum.splits)
     (blast intro: grows_steps grows_ensureCriticalSchema grows_runPending)+

lemma grows_runMigrations: "grows w (runMigrations fails k s w)"
  by (simp add: runMigrations_def grows_runMigrationsWith)

lemma grows_startups: "grows w w0 \<Longrightarrow> grows w (startups runs w0)"
proof (induction runs arbitrary: w0)
  case Nil
  then show ?case by simp
next
  case (Cons r runs)
  obtain fails k s where r: "r = (fails, k, s)" by (cases r)
  have "grows w (runMigrations fails k s w0)"
    using Cons.prems grows_runMigrations grows_trans by blast
  then show ?case
    unfolding r by (simp add: Cons.IH)
qed

subsection \<open>What the steps leave alone\<close>

lemma tables_console_log [simp]: "tables (console_log m w) = tables w"
  by (simp add: console_log_def)

lemma tables_console_error [simp]: "tables (console_error m w) = tables w"
  by (simp add: console_error_def)

lemma tables_release [simp]: "tables (release w) = tables w"
  by (simp add: release_def)

lemma trace_console_log [simp]: "trace (console_log m w) = trace w @ [ConsoleLog m]"
  by (simp add: console_log_def)

lemma trace_console_error [simp]: "trace (console_error m w) = trace w @ [ConsoleError m]"
  by (simp add: console_error_def)

lemma trace_release [simp]: "trace (release w) = trace w @ [Release]"
  by (simp add: release_def)

lemma table_rows_console_log [simp]: "table_rows n (console_log m w) = table_rows n w"
  by (simp add: table_rows_def)

lemma table_rows_console_error [simp]: "table_rows n (console_error m w) = table_rows n w"
  by (simp add: table_rows_def)

lemma table_rows_release [simp]: "table_rows n (release w) = table_rows n w"
  by (simp add: table_rows_def)

lemma getConnection_tables: "getConnection fails w = (r, w1) \<Longrightarrow> tables w1 = tables w"
  by (auto simp: getConnection_def split: if_splits)

lemma exec_repair_rows:
  assumes "exec s db = Inr (rs, db')" and "repair_stmt s"
  shows "rows_in db' n = rows_in db n"
  using assms
  by (cases s)
     (auto simp: repair_stmt_def rows_in_update rows_in_Some split: option.splits if_splits)

lemma query_repair_rows:
  assumes "query fails [s] w = (r, w1)" and "repair_stmt s"
  shows "table_rows n w1 = table_rows n w"
proof (cases "exec s (tables w)")
  case (Inl e)
  then show ?thesis
    using queryE(2) [OF assms(1)] by (simp add: table_rows_def)
next
  case (Inr p)
  obtain rs db' where p: "p = (rs, db')" by (cases p)
  have "rows_in db' n = rows_in (tables w) n"
    using Inr p assms(2) exec_repair_rows by blast
  then show ?thesis
    using queryE(2) [OF assms(1)] Inr p by (simp add: table_rows_def)
qed

lemma checkAndAddColumn_rows: "table_rows n (checkAndAddColumn fails t c d w) = table_rows n w"
proof -
  have r: "repair_stmt (ShowTablesLike t)" "repair_stmt (ShowColumnsFrom t)"
    "repair_stmt (AlterAddColumn t c d)"
    by (simp_all add: repair_stmt_def)
  show ?thesis
    unfolding checkAndAddColumn_def Let_def
    by (auto split: prod.splits sum.splits
             dest!: query_repair_rows [OF _ r(1), of _ _ _ _ n]
                    query_repair_rows [OF _ r(2), of _ _ _ _ n]
                    query_repair_rows [OF _ r(3), of _ _ _ _ n])
qed

lemma modifyIfPresent_rows:
  "table_rows n (modifyIfPresent fails t c d note warning w) = table_rows n w"
proof -
  have r: "repair_stmt (ShowColumnsFromLike t c)" "repair_stmt (AlterModifyColumn t c d)"
    by (simp_all add: repair_stmt_def)
  show ?thesis
    unfolding modifyIfPresent_def
    by (auto split: prod.splits sum.splits
             dest!: query_repair_rows [OF _ r(1), of _ _ _ _ n]
                    query_repair_rows [OF _ r(2), of _ _ _ _ n])
qed

lemma checkAndAddColumns_rows:
  "table_rows n (checkAndAddColumns fails rules w) = table_rows n w"
  by (induction fails rules w rule: checkAndAddColumns.induct)
     (simp_all add: checkAndAddColumn_rows)

lemma ensureCriticalSchema_rows: "table_rows n (ensureCriticalSchema fails w) = table_rows n w"
  by (simp add: ensureCriticalSchema_def Let_def modifyIfPresent_rows checkAndAddColumns_rows)

subsection \<open>The bookkeeping table\<close>

lemma applied_ids_console_log [simp]: "applied_ids (console_log m w) = applied_ids w"
  by (simp add: applied_ids_def)

lemma applied_ids_console_error [simp]: "applied_ids (console_error m w) = applied_ids w"
  by (simp add: applied_ids_def)

lemma applied_ids_release [simp]: "applied_ids (release w) = applied_ids w"
  by (simp add: applied_ids_def)

lemma grows_applied_ids: "grows w w' \<Longrightarrow> applied_ids w \<subseteq> applied_ids w'"
  unfolding grows_def applied_ids_def by (meson set_mono_prefix image_mono set_map subset_trans prefix_map_rightE map_mono_prefix)

lemma migrations_leave_bookkeeping:
  "list_all (\<lambda>m. list_all (\<lambda>s. target s \<noteq> Some ''migrations'') (sql m)) (migrations h)"
  by (simp add: migrations_def)

lemma mid_migrations: "map mid (migrations h) = [1, 2, 3, 4, 5, 6, 7, 8, 9, 10, 11, 12, 13, 14, 15]"
  by (simp add: migrations_def)

lemma set_mid_migrations: "mid ` set (migrations h) = {1..15}"
proof -
  have "[1..15] = [1, 2, 3, 4, 5, 6, 7, 8, 9, 10, 11, 12, 13, 14, 15 :: int]"
    by code_simp
  then have "set (map mid (migrations h)) = set [1..15]"
    by (simp only: mid_migrations)
  then show ?thesis by simp
qed

text \<open>A query that does not name the bookkeeping table leaves it as it is.\<close>

lemma query_other_rows:
  assumes "query fails sqls w = (r, w1)" and "list_all (\<lambda>s. target s \<noteq> Some n) sqls"
  shows "table_rows n w1 = table_rows n w"
  using queryE(2) [OF assms(1)] exec_all_other [OF assms(2), of "[]" "tables w"]
  by (simp add: table_rows_def rows_in_def)

text \<open>The INSERT that records an id adds that row, or fails and adds nothing.\<close>

lemma query_record_rows:
  assumes "query fails [recordMigration i] w = (r, w1)"
  shows "(\<exists>e. r = Inl e \<and> table_rows ''migrations'' w1 = table_rows ''migrations'' w) \<or>
         (r = Inr [] \<and> table_rows ''migrations'' w1 = table_rows ''migrations'' w @ [ [(''id'', Num i)] ])"
  using queryE(2,3) [OF assms]
  by (auto simp: recordMigration_def table_rows_def rows_in_update rows_in_Some
           split: option.splits list.splits if_splits)

lemma runMigration_rows:
  assumes "list_all (\<lambda>s. target s \<noteq> Some ''migrations'') (sql m)"
  shows "table_rows ''migrations'' (runMigration fails S m w) = table_rows ''migrations'' w \<or>
         (Num (mid m) \<notin> S \<and>
          table_rows ''migrations'' (runMigration fails S m w) =
            table_rows ''migrations'' w @ [ [(''id'', Num (mid m))] ])"
  unfolding runMigration_def
  by (auto split: prod.splits sum.splits
           dest!: query_other_rows [OF _ assms] query_record_rows)

lemma runMigration_applied_ids:
  assumes "list_all (\<lambda>s. target s \<noteq> Some ''migrations'') (sql m)"
  shows "applied_ids (runMigration fails S m w) \<subseteq> insert (Num (mid m)) (applied_ids w)"
  using runMigration_rows [OF assms, of fails S w]
  by (auto simp: applied_ids_def cell_def)

lemma runPending_applied_ids:
  assumes "list_all (\<lambda>m. list_all (\<lambda>s. target s \<noteq> Some ''migrations'') (sql m)) ms"
  shows "applied_ids (runPending fails S ms w) \<subseteq> applied_ids w \<union> Num ` mid ` set ms"
  using assms
proof (induction ms arbitrary: w)
  case Nil
  show ?case by simp
next
  case (Cons m ms)
  have "applied_ids (runPending fails S ms (runMigration fails S m w))
          \<subseteq> applied_ids (runMigration fails S m w) \<union> Num ` mid ` set ms"
    using Cons by simp
  moreover have "applied_ids (runMigration fails S m w) \<subseteq> insert (Num (mid m)) (applied_ids w)"
    using Cons.prems by (simp add: runMigration_applied_ids)
  ultimately show ?case by auto
qed

text \<open>Creating the bookkeeping table when it is missing and reading it change no row.\<close>

lemma query_create_rows:
  assumes "query fails [createMigrationsTable] w = (r, w1)"
  shows "table_rows n w1 = table_rows n w"
  using queryE(2) [OF assms]
  by (auto simp: createMigrationsTable_def table_rows_def rows_in_update rows_in_None
           split: option.splits if_splits)

lemma query_select_tables:
  assumes "query fails [SelectFrom c n] w = (r, w1)"
  shows "tables w1 = tables w"
  using queryE(2) [OF assms] by (auto split: option.splits if_splits)

lemma applied_ids_cong:
  "table_rows ''migrations'' w' = table_rows ''migrations'' w \<Longrightarrow> applied_ids w' = applied_ids w"
  by (simp add: applied_ids_def)

lemma runMigrationsWith_applied_ids:
  assumes "list_all (\<lambda>m. list_all (\<lambda>s. target s \<noteq> Some ''migrations'') (sql m)) ms"
  shows "applied_ids (runMigrationsWith fails ms w) \<subseteq> applied_ids w \<union> Num ` mid ` set ms"
proof -
  let ?w0 = "console_log CheckingDatabaseMigrations w"
  obtain r1 w1 where c: "getConnection fails ?w0 = (r1, w1)" by (cases "getConnection fails ?w0")
  obtain r2 w2 where q2: "query fails [createMigrationsTable] w1 = (r2, w2)"
    by (cases "query fails [createMigrationsTable] w1")
  obtain r3 w3 where q3: "query fails [SelectFrom ''id'' ''migrations''] w2 = (r3, w3)"
    by (cases "query fails [SelectFrom ''id'' ''migrations''] w2")
  have 1: "applied_ids w1 = applied_ids w"
    using getConnection_tables [OF c] by (simp add: applied_ids_def table_rows_def)
  have 2: "applied_ids w2 = applied_ids w"
    using query_create_rows [OF q2] 1 by (simp add: applied_ids_def)
  have 3: "applied_ids w3 = applied_ids w"
    using query_select_tables [OF q3] 2 by (simp add: applied_ids_def table_rows_def)
  have 4: "applied_ids (runPending fails S ms (ensureCriticalSchema fails w3))
             \<subseteq> applied_ids w \<union> Num ` mid ` set ms" for S
  proof -
    have "applied_ids (ensureCriticalSchema fails w3) = applied_ids w"
      using 3 by (simp add: applied_ids_def ensureCriticalSchema_rows)
    then show ?thesis
      using runPending_applied_ids [OF assms, of fails S "ensureCriticalSchema fails w3"] by simp
  qed
  show ?thesis
    using 1 2 3 4
    by (simp add: runMigrationsWith_def Let_def c q2 q3 split: sum.splits)
qed

lemma runMigrations_applied_ids:
  "applied_ids (runMigrations fails k s w) \<subseteq> applied_ids w \<union> Num ` {1..15}"
  unfolding runMigrations_def
  using runMigrationsWith_applied_ids [OF migrations_leave_bookkeeping]
  by (simp add: set_mid_migrations)

lemma startups_applied_ids: "applied_ids (startups runs w) \<subseteq> applied_ids w \<union> Num ` {1..15}"
proof (induction runs arbitrary: w)
  case Nil
  show ?case by simp
next
  case (Cons r runs)
  obtain fails k s where r: "r = (fails, k, s)" by (cases r)
  have "applied_ids (startups runs (runMigrations fails k s w))
          \<subseteq> applied_ids (runMigrations fails k s w) \<union> Num ` {1..15}"
    by (rule Cons.IH)
  then show ?case
    unfolding r using runMigrations_applied_ids [of fails k s w] by auto
qed

subsection \<open>The database after a pass in which no query fails for an outside reason\<close>

lemma query_no_failures:
  "query no_failures sqls w =
     (fst (exec_all sqls [] (tables w)),
      \<lparr>tables = snd (exec_all sqls [] (tables w)), trace = trace w @ [Query sqls]\<rparr>)"
  by (simp add: query_def no_failures_def split: prod.splits)

lemma like_no_match:
  assumes "filter (like p) names = []"
  shows "p \<notin> set names"
proof
  assume "p \<in> set names"
  then have "p \<in> set (filter (like p) names)" by (simp add: like_refl)
  with assms show False by simp
qed

lemma like_no_column:
  assumes "filter (\<lambda>(f, d). like c f) cols = []"
  shows "c \<notin> set (map fst cols)"
proof
  assume "c \<in> set (map fst cols)"
  then obtain d where "(c, d) \<in> set cols" by auto
  then have "(c, d) \<in> set (filter (\<lambda>(f, d). like c f) cols)" by (simp add: like_refl)
  with assms show False by simp
qed

lemma map_of_absent: "n \<notin> set (map fst db) \<Longrightarrow> map_of db n = None"
  by (simp add: map_of_eq_None_iff)

lemma shown_field_member:
  "(Str c \<in> (\<lambda>x. cell (case x of (f, d) \<Rightarrow> [(''Field'', Str f), (''Type'', Str d)]) ''Field'') ` A)
     = (c \<in> fst ` A)"
  by (force simp: cell_def)

lemma checkAndAddColumn_tables:
  "tables (checkAndAddColumn no_failures t c d w) = tolerant (AlterAddColumn t c d) (tables w)"
proof (cases "filter (like t) (map fst (tables w)) = []")
  case True
  have "map_of (tables w) t = None"
    using like_no_match [OF True] by (rule map_of_absent)
  with True show ?thesis
    by (simp add: checkAndAddColumn_def query_no_failures tolerant_def)
next
  case False
  show ?thesis
  proof (cases "map_of (tables w) t")
    case None
    with False show ?thesis
      by (simp add: checkAndAddColumn_def query_no_failures tolerant_def)
  next
    case (Some tb)
    have "filter (like t \<circ> fst) (tables w) \<noteq> []"
      using False by (simp add: filter_map)
    with Some show ?thesis
      by (simp add: checkAndAddColumn_def query_no_failures tolerant_def Let_def
            shown_field_member field_names_def)
  qed
qed

lemma modifyIfPresent_tables:
  "tables (modifyIfPresent no_failures t c d note warning w) =
     tolerant (AlterModifyColumn t c d) (tables w)"
proof (cases "map_of (tables w) t")
  case None
  then show ?thesis
    by (simp add: modifyIfPresent_def query_no_failures tolerant_def)
next
  case (Some tb)
  show ?thesis
  proof (cases "filter (\<lambda>(f, d). like c f) (columns tb) = []")
    case True
    then have "c \<notin> set (field_names tb)"
      unfolding field_names_def by (rule like_no_column)
    with Some True show ?thesis
      by (simp add: modifyIfPresent_def query_no_failures tolerant_def)
  next
    case False
    with Some show ?thesis
      by (simp add: modifyIfPresent_def query_no_failures tolerant_def)
  qed
qed

lemma checkAndAddColumns_tables:
  "tables (checkAndAddColumns no_failures rules w) =
     foldl (\<lambda>db s. tolerant s db) (tables w) (map (\<lambda>(t, c, d). AlterAddColumn t c d) rules)"
proof (induction rules arbitrary: w)
  case Nil
  show ?case by simp
next
  case (Cons r rules)
  obtain t c d where r: "r = (t, c, d)" by (cases r)
  show ?case
    unfolding r by (simp add: Cons.IH checkAndAddColumn_tables)
qed

lemma ensureCriticalSchema_tables:
  "tables (ensureCriticalSchema no_failures w) = repairEffect (tables w)"
  by (simp add: ensureCriticalSchema_def Let_def repairEffect_def repairStatements_def
        modifyIfPresent_tables checkAndAddColumns_tables)

lemma runMigration_tables:
  "tables (runMigration no_failures S m w) = migrationEffect S (tables w) m"
proof (cases "exec_all (sql m) [] (tables w)")
  case (Pair r db1)
  show ?thesis
  proof (cases r)
    case (Inl e)
    with Pair show ?thesis
      by (simp add: runMigration_def migrationEffect_def query_no_failures)
  next
    case (Inr rs)
    with Pair show ?thesis
      by (cases "exec (recordMigration (mid m)) db1")
         (auto simp: runMigration_def migrationEffect_def query_no_failures tolerant_def)
  qed
qed

lemma runPending_tables:
  "tables (runPending no_failures S ms w) = foldl (migrationEffect S) (tables w) ms"
  by (induction ms arbitrary: w) (simp_all add: runMigration_tables)

lemma getConnection_no_failures:
  "getConnection no_failures w = (Inr (), w\<lparr>trace := trace w @ [Acquire]\<rparr>)"
  by (simp add: getConnection_def no_failures_def)

lemma runMigrationsWith_tables:
  "tables (runMigrationsWith no_failures ms w) = runEffect ms (tables w)"
proof (cases "exec createMigrationsTable (tables w)")
  case (Inl e)
  then show ?thesis
    by (simp add: createMigrationsTable_def split: option.splits)
next
  case (Inr p)
  obtain rs db1 where p: "p = (rs, db1)" by (cases p)
  show ?thesis
  proof (cases "exec (SelectFrom ''id'' ''migrations'') db1")
    case (Inl e)
    with Inr p show ?thesis
      by (simp add: runMigrationsWith_def runEffect_def Let_def getConnection_no_failures
            query_no_failures tolerant_def del: exec.simps)
  next
    case r: (Inr q)
    obtain executedRows db2 where q: "q = (executedRows, db2)" by (cases q)
    have "db2 = db1"
      using r q by (auto split: option.splits if_splits)
    with Inr p r q show ?thesis
      by (simp add: runMigrationsWith_def runEffect_def Let_def getConnection_no_failures
            query_no_failures tolerant_def runPending_tables ensureCriticalSchema_tables
            del: exec.simps)
  qed
qed

lemma runMigrations_tables:
  "tables (runMigrations no_failures k s w) =
     runEffect (migrations (hashSync ''marceloadmin'' k s)) (tables w)"
  by (simp add: runMigrations_def runMigrationsWith_tables)

subsection \<open>A first start on an empty database\<close>

lemma rows_in_map:
  "rows_in db n = (case map_of (map (\<lambda>(n, t). (n, rows t)) db) n of None \<Rightarrow> [] | Some rs \<Rightarrow> rs)"
  by (induction db) (auto simp: rows_in_def)

lemma fresh_rows:
  "map (\<lambda>(n, t). (n, rows t)) (runEffect (migrations h) []) =
     [(''migrations'', map (\<lambda>i. [(''id'', Num i)]) [1, 2, 3, 4, 5, 6, 7, 8, 9, 10, 12, 13, 14, 15]),
      (''users'', [adminRow h]),
      (''equipment'', []),
      (''licenses'', []),
      (''equipment_history'', []),
      (''audit_log'', []),
      (''app_config'',
        [configRow ''companyName'' (Str ''MRR INFORMATICA''),
         configRow ''isSsoEnabled'' (Str ''false''),
         configRow ''termo_entrega_template'' Null,
         configRow ''termo_devolucao_template'' Null,
         configRow ''is2faEnabled'' (Str ''false'')])]"
  by code_simp

lemma fresh_users_columns:
  "map_option field_names (map_of (runEffect (migrations h) []) ''users'') =
     Some [''id'', ''username'', ''realName'', ''email'', ''password'', ''role'', ''lastLogin'',
           ''is2FAEnabled'', ''twoFASecret'', ''ssoProvider'', ''avatarUrl'']"
  by code_simp

lemma fresh_table_rows:
  "table_rows n (runMigrations no_failures k s empty_world) =
     (case map_of (map (\<lambda>(n, t). (n, rows t))
             (runEffect (migrations (hashSync ''marceloadmin'' k s)) [])) n of
        None \<Rightarrow> [] | Some rs \<Rightarrow> rs)"
  by (simp add: table_rows_def runMigrations_tables empty_world_def rows_in_map)

text \<open>
  C1. Starting from an empty database with no outside failure, one run does not apply
  all fifteen migrations: migration 1 creates \<open>users\<close> with the column \<open>avatarUrl\<close>, so
  the \<^verbatim>\<open>ALTER TABLE users ADD COLUMN avatarUrl\<close> of migration 11 raises a duplicate-column
  error and its id is not recorded. The bookkeeping table ends with fourteen rows, ids
  1 to 10 and 12 to 15; on the resulting database migration 11 fails again. The rest of
  the scenario holds: \<open>users\<close> has exactly the seeded admin row, whose hash verifies
  against the seeded password, and \<open>app_config\<close> has the seeded keys.
\<close>

theorem fresh_database_run:
  "map (\<lambda>r. cell r ''id'') (table_rows ''migrations'' (runMigrations no_failures k s empty_world))
     = map Num [1, 2, 3, 4, 5, 6, 7, 8, 9, 10, 12, 13, 14, 15]
   \<and> Num 11 \<notin> applied_ids (runMigrations no_failures k s empty_world)
   \<and> fst (exec_all [AlterAddColumn ''users'' ''avatarUrl'' ''MEDIUMTEXT''] []
            (tables (runMigrations no_failures k s empty_world)))
       = Inl (ER_DUP_FIELDNAME ''avatarUrl'')
   \<and> table_rows ''users'' (runMigrations no_failures k s empty_world)
       = [adminRow (hashSync ''marceloadmin'' k s)]
   \<and> compareSync ''marceloadmin'' (hashSync ''marceloadmin'' k s)
   \<and> table_rows ''app_config'' (runMigrations no_failures k s empty_world)
       = [configRow ''companyName'' (Str ''MRR INFORMATICA''),
          configRow ''isSsoEnabled'' (Str ''false''),
          configRow ''termo_entrega_template'' Null,
          configRow ''termo_devolucao_template'' Null,
          configRow ''is2faEnabled'' (Str ''false'')]"
proof -
  let ?h = "hashSync ''marceloadmin'' k s"
  let ?w = "runMigrations no_failures k s empty_world"
  have ids: "map (\<lambda>r. cell r ''id'') (table_rows ''migrations'' ?w)
               = map Num [1, 2, 3, 4, 5, 6, 7, 8, 9, 10, 12, 13, 14, 15]"
    by (simp add: fresh_table_rows fresh_rows cell_def)
  have not11: "Num 11 \<notin> applied_ids ?w"
    unfolding applied_ids_def ids by simp
  have users: "table_rows ''users'' ?w = [adminRow ?h]"
    by (simp add: fresh_table_rows fresh_rows)
  have config: "table_rows ''app_config'' ?w
       = [configRow ''companyName'' (Str ''MRR INFORMATICA''),
          configRow ''isSsoEnabled'' (Str ''false''),
          configRow ''termo_entrega_template'' Null,
          configRow ''termo_devolucao_template'' Null,
          configRow ''is2faEnabled'' (Str ''false'')]"
    by (simp add: fresh_table_rows fresh_rows)
  have dup: "fst (exec_all [AlterAddColumn ''users'' ''avatarUrl'' ''MEDIUMTEXT''] [] (tables ?w))
       = Inl (ER_DUP_FIELDNAME ''avatarUrl'')"
    using fresh_users_columns [of ?h]
    by (auto simp: runMigrations_tables empty_world_def split: option.splits)
  have verify: "compareSync ''marceloadmin'' ?h"
    by (simp add: compareSync_def hashSync_def hash_with_def genSaltSync_def)
  show ?thesis
    using ids not11 dup users verify config by blast
qed

text \<open>
  C10. Across any sequence of startups, whatever fails in them, the bookkeeping table
  only grows: its rows before are an initial segment of its rows after (no row is
  updated or deleted), so the set of applied ids before is contained in the set after;
  and what is added are ids of the fixed list, 1 to 15.
\<close>

theorem bookkeeping_only_grows:
  "prefix (table_rows ''migrations'' w) (table_rows ''migrations'' (startups runs w))
   \<and> applied_ids w \<subseteq> applied_ids (startups runs w)
   \<and> applied_ids (startups runs w) \<subseteq> applied_ids w \<union> Num ` {1..15}"
proof -
  have g: "grows w (startups runs w)"
    by (rule grows_startups) (rule grows_refl)
  then have "prefix (table_rows ''migrations'' w) (table_rows ''migrations'' (startups runs w))"
    by (simp add: grows_def)
  moreover have "applied_ids w \<subseteq> applied_ids (startups runs w)"
    using g by (rule grows_applied_ids)
  ultimately show ?thesis
    using startups_applied_ids by blast
qed

subsection \<open>The loop\<close>

lemma runMigration_recorded: "Num (mid m) \<in> S \<Longrightarrow> runMigration fails S m w = w"
  by (simp add: runMigration_def)

lemma runPending_pending: "runPending fails S ms w = runPending fails S (pending S ms) w"
  by (induction ms arbitrary: w) (simp_all add: pending_def runMigration_recorded)

lemma runMigration_trace:
  assumes "Num (mid m) \<notin> S"
  shows "\<exists>out. trace (runMigration fails S m w) = trace w @ attempt m out"
proof -
  let ?w0 = "console_log (RunningMigration (mid m)) w"
  obtain r1 w1 where q1: "query fails (sql m) ?w0 = (r1, w1)" by (cases "query fails (sql m) ?w0")
  obtain r2 w2 where q2: "query fails [recordMigration (mid m)] w1 = (r2, w2)"
    by (cases "query fails [recordMigration (mid m)] w1")
  have t1: "trace w1 = trace w @ [ConsoleLog (RunningMigration (mid m)), Query (sql m)]"
    using queryE(1) [OF q1] by simp
  have t2: "trace w2 = trace w @ [ConsoleLog (RunningMigration (mid m)), Query (sql m),
                                   Query [recordMigration (mid m)] ]"
    using queryE(1) [OF q2] t1 by simp
  show ?thesis
  proof (cases r1)
    case (Inl e)
    then have "trace (runMigration fails S m w) = trace w @ attempt m (SqlFailed e)"
      using assms q1 t1 by (simp add: runMigration_def)
    then show ?thesis ..
  next
    case r1: (Inr rs)
    show ?thesis
    proof (cases r2)
      case (Inl e)
      then have "trace (runMigration fails S m w) = trace w @ attempt m (RecordFailed e)"
        using assms q1 q2 r1 t2 by (simp add: runMigration_def)
      then show ?thesis ..
    next
      case (Inr rs')
      then have "trace (runMigration fails S m w) = trace w @ attempt m Completed"
        using assms q1 q2 r1 t2 by (simp add: runMigration_def)
      then show ?thesis ..
    qed
  qed
qed

lemma runPending_trace:
  "\<exists>outs. length outs = length (pending S ms) \<and>
          trace (runPending fails S ms w) = trace w @ attempts (pending S ms) outs"
proof (induction ms arbitrary: w)
  case Nil
  show ?case by (simp add: pending_def)
next
  case (Cons m ms)
  show ?case
  proof (cases "Num (mid m) \<in> S")
    case True
    then show ?thesis
      using Cons.IH [of w] by (simp add: pending_def runMigration_recorded)
  next
    case False
    obtain out where o: "trace (runMigration fails S m w) = trace w @ attempt m out"
      using runMigration_trace [OF False] by blast
    obtain outs where os: "length outs = length (pending S ms)"
      "trace (runPending fails S ms (runMigration fails S m w))
         = trace (runMigration fails S m w) @ attempts (pending S ms) outs"
      using Cons.IH [of "runMigration fails S m w"] by blast
    have "length (out # outs) = length (pending S (m # ms))"
      using False os(1) by (simp add: pending_def)
    moreover have "trace (runPending fails S (m # ms) w)
                     = trace w @ attempts (pending S (m # ms)) (out # outs)"
      using False o os(2) by (simp add: pending_def)
    ultimately show ?thesis by blast
  qed
qed

subsection \<open>The events of the repair pass\<close>

lemma repairing_refl: "repairing w w"
  by (simp add: repairing_def)

lemma repairing_console_log:
  assumes "repairing w w0" and "repair_message m"
  shows "repairing w (console_log m w0)"
  using assms by (auto simp: repairing_def repair_event_def)

lemma repairing_console_error:
  assumes "repairing w w0" and "repair_message m"
  shows "repairing w (console_error m w0)"
  using assms by (auto simp: repairing_def repair_event_def)

lemma repairing_query:
  assumes "query fails [s] w0 = (r, w1)" and "repairing w w0" and "repair_stmt s"
  shows "repairing w w1"
  using assms(2,3) queryE(1) [OF assms(1)] by (auto simp: repairing_def repair_event_def)

lemma repairing_checkAndAddColumn:
  assumes "repairing w w0"
  shows "repairing w (checkAndAddColumn fails t c d w0)"
proof -
  have s: "repair_stmt (ShowTablesLike t)" "repair_stmt (ShowColumnsFrom t)"
    "repair_stmt (AlterAddColumn t c d)"
    by (simp_all add: repair_stmt_def)
  have m: "repair_message (AutoRepairAdding c t)" "\<And>e. repair_message (ErrorCheckingColumn c t e)"
    by (simp_all add: repair_message_def)
  note steps = repairing_query [OF _ _ s(1)] repairing_query [OF _ _ s(2)]
    repairing_query [OF _ _ s(3)] repairing_console_log [OF _ m(1)]
    repairing_console_error [OF _ m(2)]
  show ?thesis
    unfolding checkAndAddColumn_def Let_def
    using assms by (auto split: prod.splits sum.splits) (blast intro: steps)+
qed

lemma repairing_modifyIfPresent:
  assumes "repairing w w0" and "repair_message note" and "\<And>e. repair_message (warning e)"
  shows "repairing w (modifyIfPresent fails t c d note warning w0)"
proof -
  have s: "repair_stmt (ShowColumnsFromLike t c)" "repair_stmt (AlterModifyColumn t c d)"
    by (simp_all add: repair_stmt_def)
  note steps = repairing_query [OF _ _ s(1)] repairing_query [OF _ _ s(2)]
    repairing_console_log [OF _ assms(2)] repairing_console_error [OF _ assms(3)]
  show ?thesis
    unfolding modifyIfPresent_def
    using assms(1) by (auto split: prod.splits sum.splits) (blast intro: steps)+
qed

lemma repairing_checkAndAddColumns:
  "repairing w w0 \<Longrightarrow> repairing w (checkAndAddColumns fails rules w0)"
  by (induction fails rules w0 rule: checkAndAddColumns.induct)
     (simp_all add: repairing_checkAndAddColumn)

lemma ensureCriticalSchema_trace:
  "\<exists>R. trace (ensureCriticalSchema fails w) =
          trace w @ [ConsoleLog RunningCriticalSchemaCheck] @ R @ [ConsoleLog CriticalSchemaCheckComplete]
        \<and> list_all repair_event R"
proof -
  let ?w0 = "console_log RunningCriticalSchemaCheck w"
  have "repairing ?w0 ?w0" by (rule repairing_refl)
  then have "repairing ?w0 (checkAndAddColumns fails repairRules ?w0)"
    by (rule repairing_checkAndAddColumns)
  then have "repairing ?w0
     (modifyIfPresent fails ''audit_log'' ''timestamp'' ''DATETIME DEFAULT CURRENT_TIMESTAMP''
        AutoRepairAuditLogTimestampDefault AutoRepairWarningAuditLogTimestamp
     (modifyIfPresent fails ''equipment_history'' ''timestamp'' ''DATETIME DEFAULT CURRENT_TIMESTAMP''
        AutoRepairTimestampDefault AutoRepairWarningTimestamp
     (modifyIfPresent fails ''equipment_history'' ''equipmentId'' ''INT NULL''
        AutoRepairEquipmentIdNullable AutoRepairWarningEquipmentId
     (checkAndAddColumns fails repairRules ?w0))))"
    by (intro repairing_modifyIfPresent) (simp_all add: repair_message_def)
  then show ?thesis
    by (auto simp: repairing_def ensureCriticalSchema_def Let_def)
qed

subsection \<open>The run as a whole\<close>

text \<open>The set the run reads is the set of ids in the bookkeeping table.\<close>

lemma query_select_ids:
  assumes "query fails [SelectFrom ''id'' ''migrations''] w = (Inr executedRows, w1)"
  shows "set (map (\<lambda>r. cell r ''id'') executedRows) = applied_ids w"
proof -
  have r: "Inr executedRows =
     (if fails (length (trace w)) then Inl ER_OTHER
      else fst (exec_all [SelectFrom ''id'' ''migrations''] [] (tables w)))"
    using queryE(3) [OF assms] .
  then obtain t where t: "map_of (tables w) ''migrations'' = Some t"
    and rows: "executedRows = map (\<lambda>r. [(''id'', cell r ''id'')]) (rows t)"
    by (auto split: if_splits option.splits)
  have "map (\<lambda>r. cell r ''id'') executedRows = map (\<lambda>r. cell r ''id'') (rows t)"
    unfolding rows by (simp add: cell_def)
  then show ?thesis
    using t by (simp add: applied_ids_def table_rows_def rows_in_Some)
qed

text \<open>
  The four ways a run can go: no connection; the bookkeeping table cannot be created;
  it cannot be read; or the repair pass and the loop run, on the set of ids that was in
  the bookkeeping table when the run began.
\<close>

lemma runMigrationsWith_cases:
  "(\<exists>e. runMigrationsWith fails ms w =
          console_error (MigrationFailed e) (console_log CheckingDatabaseMigrations w))
   \<or> (\<exists>e w2. runMigrationsWith fails ms w = release (console_error (MigrationFailed e) w2)
         \<and> trace w2 = trace w @ [ConsoleLog CheckingDatabaseMigrations, Acquire,
                                   Query [createMigrationsTable] ])
   \<or> (\<exists>e w3. runMigrationsWith fails ms w = release (console_error (MigrationFailed e) w3)
         \<and> trace w3 = trace w @ [ConsoleLog CheckingDatabaseMigrations, Acquire,
                                   Query [createMigrationsTable],
                                   Query [SelectFrom ''id'' ''migrations''] ])
   \<or> (\<exists>w3. runMigrationsWith fails ms w =
           release (console_log MigrationsCheckComplete
             (runPending fails (applied_ids w) ms (ensureCriticalSchema fails w3)))
         \<and> trace w3 = trace w @ [ConsoleLog CheckingDatabaseMigrations, Acquire,
                                   Query [createMigrationsTable],
                                   Query [SelectFrom ''id'' ''migrations''] ])"
proof -
  let ?w0 = "console_log CheckingDatabaseMigrations w"
  obtain r1 w1 where c: "getConnection fails ?w0 = (r1, w1)" by (cases "getConnection fails ?w0")
  obtain r2 w2 where q2: "query fails [createMigrationsTable] w1 = (r2, w2)"
    by (cases "query fails [createMigrationsTable] w1")
  obtain r3 w3 where q3: "query fails [SelectFrom ''id'' ''migrations''] w2 = (r3, w3)"
    by (cases "query fails [SelectFrom ''id'' ''migrations''] w2")
  show ?thesis
  proof (cases r1)
    case (Inl e)
    then have "w1 = ?w0"
      using c by (auto simp: getConnection_def split: if_splits)
    with Inl c have "runMigrationsWith fails ms w = console_error (MigrationFailed e) ?w0"
      by (simp add: runMigrationsWith_def)
    then show ?thesis by blast
  next
    case r1: (Inr u)
    then have t1: "trace w1 = trace w @ [ConsoleLog CheckingDatabaseMigrations, Acquire]"
      using c by (auto simp: getConnection_def split: if_splits)
    have t2: "trace w2 = trace w @ [ConsoleLog CheckingDatabaseMigrations, Acquire,
                                     Query [createMigrationsTable] ]"
      using queryE(1) [OF q2] t1 by simp
    have t3: "trace w3 = trace w @ [ConsoleLog CheckingDatabaseMigrations, Acquire,
                                     Query [createMigrationsTable],
                                     Query [SelectFrom ''id'' ''migrations''] ]"
      using queryE(1) [OF q3] t2 by simp
    show ?thesis
    proof (cases r2)
      case (Inl e)
      with r1 c q2 have "runMigrationsWith fails ms w = release (console_error (MigrationFailed e) w2)"
        by (simp add: runMigrationsWith_def)
      with t2 show ?thesis by blast
    next
      case r2: (Inr rs)
      show ?thesis
      proof (cases r3)
        case (Inl e)
        with r1 r2 c q2 q3
        have "runMigrationsWith fails ms w = release (console_error (MigrationFailed e) w3)"
          by (simp add: runMigrationsWith_def)
        with t3 show ?thesis by blast
      next
        case (Inr executedRows)
        have "applied_ids w2 = applied_ids w"
          using query_create_rows [OF q2] getConnection_tables [OF c]
          by (simp add: applied_ids_def table_rows_def)
        then have "set (map (\<lambda>r. cell r ''id'') executedRows) = applied_ids w"
          using query_select_ids q3 Inr by blast
        with Inr r1 r2 c q2 q3
        have "runMigrationsWith fails ms w =
                release (console_log MigrationsCheckComplete
                  (runPending fails (applied_ids w) ms (ensureCriticalSchema fails w3)))"
          by (simp add: runMigrationsWith_def Let_def del: set_map)
        with t3 show ?thesis by blast
      qed
    qed
  qed
qed

text \<open>Only the pending part of the list matters to a run.\<close>

lemma runMigrationsWith_cong:
  assumes "pending (applied_ids w) ms = pending (applied_ids w) ms'"
  shows "runMigrationsWith fails ms w = runMigrationsWith fails ms' w"
proof -
  let ?w0 = "console_log CheckingDatabaseMigrations w"
  obtain r1 w1 where c: "getConnection fails ?w0 = (r1, w1)" by (cases "getConnection fails ?w0")
  obtain r2 w2 where q2: "query fails [createMigrationsTable] w1 = (r2, w2)"
    by (cases "query fails [createMigrationsTable] w1")
  obtain r3 w3 where q3: "query fails [SelectFrom ''id'' ''migrations''] w2 = (r3, w3)"
    by (cases "query fails [SelectFrom ''id'' ''migrations''] w2")
  have ids: "set (map (\<lambda>r. cell r ''id'') executedRows) = applied_ids w"
    if "r3 = Inr executedRows" for executedRows
  proof -
    have "applied_ids w2 = applied_ids w"
      using query_create_rows [OF q2] getConnection_tables [OF c]
      by (simp add: applied_ids_def table_rows_def)
    then show ?thesis
      using query_select_ids q3 that by blast
  qed
  have "runPending fails (applied_ids w) ms w' = runPending fails (applied_ids w) ms' w'" for w'
    using runPending_pending [of fails "applied_ids w" ms w']
      runPending_pending [of fails "applied_ids w" ms' w'] assms by simp
  then show ?thesis
    using ids by (simp add: runMigrationsWith_def Let_def c q2 q3 split: sum.splits del: set_map)
qed

lemma pending_idem: "pending S (pending S ms) = pending S ms"
  by (simp add: pending_def)

lemma pending_edit:
  "pending S (map (\<lambda>m. if Num (mid m) \<in> S then m\<lparr>sql := edit m\<rparr> else m) ms) = pending S ms"
  by (induction ms) (simp_all add: pending_def)

text \<open>
  C2. A migration whose id is in the bookkeeping table when a run begins plays no part
  in the run: the run is the same, in every event and in the database it leaves, as the
  run of the list without it; and replacing the SQL of such migrations by anything else
  (\<open>edit\<close>) changes nothing. This holds whatever fails during the run.
\<close>

theorem recorded_migrations_are_skipped:
  "runMigrationsWith fails ms w = runMigrationsWith fails (pending (applied_ids w) ms) w
   \<and> runMigrationsWith fails
        (map (\<lambda>m. if Num (mid m) \<in> applied_ids w then m\<lparr>sql := edit m\<rparr> else m) ms) w
      = runMigrationsWith fails ms w"
  using runMigrationsWith_cong [of w ms "pending (applied_ids w) ms" fails]
    runMigrationsWith_cong [of w
      "map (\<lambda>m. if Num (mid m) \<in> applied_ids w then m\<lparr>sql := edit m\<rparr> else m) ms" ms fails]
  by (simp add: pending_idem pending_edit)

text \<open>The events of a run, in order, on each of its four paths.\<close>

lemma runMigrationsWith_trace:
  "\<exists>evs. trace (runMigrationsWith fails ms w) = trace w @ evs \<and>
     ((\<exists>e. evs = [ConsoleLog CheckingDatabaseMigrations, ConsoleError (MigrationFailed e)])
      \<or> (\<exists>e. evs = [ConsoleLog CheckingDatabaseMigrations, Acquire,
                     Query [createMigrationsTable],
                     ConsoleError (MigrationFailed e), Release])
      \<or> (\<exists>e. evs = [ConsoleLog CheckingDatabaseMigrations, Acquire,
                     Query [createMigrationsTable], Query [SelectFrom ''id'' ''migrations''],
                     ConsoleError (MigrationFailed e), Release])
      \<or> (\<exists>R outs. evs =
             [ConsoleLog CheckingDatabaseMigrations, Acquire,
              Query [createMigrationsTable], Query [SelectFrom ''id'' ''migrations''],
              ConsoleLog RunningCriticalSchemaCheck] @ R @
             [ConsoleLog CriticalSchemaCheckComplete] @
             attempts (pending (applied_ids w) ms) outs @
             [ConsoleLog MigrationsCheckComplete, Release]
           \<and> list_all repair_event R
           \<and> length outs = length (pending (applied_ids w) ms)))"
proof -
  consider
    (connection) e where "runMigrationsWith fails ms w =
          console_error (MigrationFailed e) (console_log CheckingDatabaseMigrations w)"
  | (create) e w2 where "runMigrationsWith fails ms w = release (console_error (MigrationFailed e) w2)"
      "trace w2 = trace w @ [ConsoleLog CheckingDatabaseMigrations, Acquire,
                              Query [createMigrationsTable] ]"
  | (select) e w3 where "runMigrationsWith fails ms w = release (console_error (MigrationFailed e) w3)"
      "trace w3 = trace w @ [ConsoleLog CheckingDatabaseMigrations, Acquire,
                              Query [createMigrationsTable],
                              Query [SelectFrom ''id'' ''migrations''] ]"
  | (loop) w3 where "runMigrationsWith fails ms w =
           release (console_log MigrationsCheckComplete
             (runPending fails (applied_ids w) ms (ensureCriticalSchema fails w3)))"
      "trace w3 = trace w @ [ConsoleLog CheckingDatabaseMigrations, Acquire,
                              Query [createMigrationsTable],
                              Query [SelectFrom ''id'' ''migrations''] ]"
    using runMigrationsWith_cases [of fails ms w] by blast
  then show ?thesis
  proof cases
    case connection
    then have "trace (runMigrationsWith fails ms w) =
      trace w @ [ConsoleLog CheckingDatabaseMigrations, ConsoleError (MigrationFailed e)]"
      by simp
    then show ?thesis by blast
  next
    case create
    then have "trace (runMigrationsWith fails ms w) =
      trace w @ [ConsoleLog CheckingDatabaseMigrations, Acquire, Query [createMigrationsTable],
                 ConsoleError (MigrationFailed e), Release]"
      by simp
    then show ?thesis by blast
  next
    case select
    then have "trace (runMigrationsWith fails ms w) =
      trace w @ [ConsoleLog CheckingDatabaseMigrations, Acquire, Query [createMigrationsTable],
                 Query [SelectFrom ''id'' ''migrations''],
                 ConsoleError (MigrationFailed e), Release]"
      by simp
    then show ?thesis by blast
  next
    case loop
    obtain R where R: "trace (ensureCriticalSchema fails w3) =
          trace w3 @ [ConsoleLog RunningCriticalSchemaCheck] @ R @ [ConsoleLog CriticalSchemaCheckComplete]"
      "list_all repair_event R"
      using ensureCriticalSchema_trace by blast
    obtain outs where outs: "length outs = length (pending (applied_ids w) ms)"
      "trace (runPending fails (applied_ids w) ms (ensureCriticalSchema fails w3)) =
         trace (ensureCriticalSchema fails w3) @ attempts (pending (applied_ids w) ms) outs"
      using runPending_trace by blast
    have "trace (runMigrationsWith fails ms w) =
            trace w @
             ([ConsoleLog CheckingDatabaseMigrations, Acquire,
              Query [createMigrationsTable], Query [SelectFrom ''id'' ''migrations''],
              ConsoleLog RunningCriticalSchemaCheck] @ R @
             [ConsoleLog CriticalSchemaCheckComplete] @
             attempts (pending (applied_ids w) ms) outs @
             [ConsoleLog MigrationsCheckComplete, Release])"
      using loop R(1) outs(2) by simp
    with R(2) outs(1) show ?thesis by blast
  qed
qed

text \<open>
  C5 (as amended). On every startup the events of the pass come in this order: the
  connection is obtained; the bookkeeping table is created if missing; the applied ids
  are read; then the repair pass runs (probes, ALTERs and its console lines, between
  its opening and closing lines); then, for each migration of the fixed list whose id
  was not read, in list order (ids ascending), its SQL and the recording of its id;
  then the connection is released. When the connection cannot be obtained nothing else
  happens, and when the bookkeeping table cannot be created or read the connection is
  released at once.
\<close>

theorem startup_order:
  "map mid (migrations (hashSync ''marceloadmin'' k s))
     = [1, 2, 3, 4, 5, 6, 7, 8, 9, 10, 11, 12, 13, 14, 15]
   \<and> (\<exists>evs. trace (runMigrations fails k s w) = trace w @ evs \<and>
     ((\<exists>e. evs = [ConsoleLog CheckingDatabaseMigrations, ConsoleError (MigrationFailed e)])
      \<or> (\<exists>e. evs = [ConsoleLog CheckingDatabaseMigrations, Acquire,
                     Query [createMigrationsTable],
                     ConsoleError (MigrationFailed e), Release])
      \<or> (\<exists>e. evs = [ConsoleLog CheckingDatabaseMigrations, Acquire,
                     Query [createMigrationsTable], Query [SelectFrom ''id'' ''migrations''],
                     ConsoleError (MigrationFailed e), Release])
      \<or> (\<exists>R outs. evs =
             [ConsoleLog CheckingDatabaseMigrations, Acquire,
              Query [createMigrationsTable], Query [SelectFrom ''id'' ''migrations''],
              ConsoleLog RunningCriticalSchemaCheck] @ R @
             [ConsoleLog CriticalSchemaCheckComplete] @
             attempts (pending (applied_ids w) (migrations (hashSync ''marceloadmin'' k s))) outs @
             [ConsoleLog MigrationsCheckComplete, Release]
           \<and> list_all repair_event R
           \<and> length outs
               = length (pending (applied_ids w) (migrations (hashSync ''marceloadmin'' k s))))))"
  unfolding runMigrations_def
  using runMigrationsWith_trace [of fails "migrations (hashSync ''marceloadmin'' k s)" w]
    mid_migrations [of "hashSync ''marceloadmin'' k s"]
  by blast

lemma checkAndAddColumn_first:
  "prefix (trace w @ [Query [ShowTablesLike t] ]) (trace (checkAndAddColumn fails t c d w))"
proof -
  obtain r1 w1 where q1: "query fails [ShowTablesLike t] w = (r1, w1)"
    by (cases "query fails [ShowTablesLike t] w")
  have t1: "trace w1 = trace w @ [Query [ShowTablesLike t] ]"
    using queryE(1) [OF q1] .
  have "grows w1 (checkAndAddColumn fails t c d w)"
    unfolding checkAndAddColumn_def Let_def q1
    by (auto split: prod.splits sum.splits) (blast intro: grows_steps)+
  then show ?thesis
    using t1 by (simp add: grows_def)
qed

text \<open>
  Against C5 as stated (repairs first, then the read of the applied ids): on an empty
  database the fourth event of the run is the \<^verbatim>\<open>SELECT id FROM migrations\<close>, and the repair
  pass opens only after it, with its first probe as sixth event.
\<close>

theorem ids_are_read_before_the_repairs:
  "take 6 (trace (runMigrations no_failures (Integer 10) ''N9qo8uLOickgx2ZMRZoMye'' empty_world))
     = [ConsoleLog CheckingDatabaseMigrations, Acquire,
        Query [createMigrationsTable], Query [SelectFrom ''id'' ''migrations''],
        ConsoleLog RunningCriticalSchemaCheck, Query [ShowTablesLike ''licenses''] ]"
proof -
  let ?ms = "migrations (hashSync ''marceloadmin'' (Integer 10) ''N9qo8uLOickgx2ZMRZoMye'')"
  let ?w3 = "\<lparr>tables = [(''migrations'',
                 \<lparr>columns = [(''id'', ''INT PRIMARY KEY'')], uniques = [''id''], rows = []\<rparr>)],
              trace = [ConsoleLog CheckingDatabaseMigrations, Acquire,
                       Query [createMigrationsTable], Query [SelectFrom ''id'' ''migrations''] ]\<rparr>"
  let ?w4 = "console_log RunningCriticalSchemaCheck ?w3"
  let ?six = "[ConsoleLog CheckingDatabaseMigrations, Acquire,
        Query [createMigrationsTable], Query [SelectFrom ''id'' ''migrations''],
        ConsoleLog RunningCriticalSchemaCheck, Query [ShowTablesLike ''licenses''] ]"
  have run: "runMigrations no_failures (Integer 10) ''N9qo8uLOickgx2ZMRZoMye'' empty_world =
     release (console_log MigrationsCheckComplete
       (runPending no_failures {} ?ms (ensureCriticalSchema no_failures ?w3)))"
    by (simp add: runMigrations_def runMigrationsWith_def getConnection_no_failures
          query_no_failures createMigrationsTable_def empty_world_def console_log_def
          field_names_def Let_def)
  obtain rules where rules:
    "repairRules = (''licenses'', ''empresa'', ''VARCHAR(255) NULL'') # rules"
    by (simp add: repairRules_def)
  have "prefix (trace ?w4 @ [Query [ShowTablesLike ''licenses''] ])
          (trace (checkAndAddColumn no_failures ''licenses'' ''empresa'' ''VARCHAR(255) NULL'' ?w4))"
    by (rule checkAndAddColumn_first)
  also have "prefix \<dots> (trace (checkAndAddColumns no_failures repairRules ?w4))"
    unfolding rules using grows_checkAndAddColumns [OF grows_refl] by (simp add: grows_def)
  also have "prefix \<dots> (trace (ensureCriticalSchema no_failures ?w3))"
    unfolding ensureCriticalSchema_def Let_def
    using grows_console_log [OF grows_modifyIfPresent [OF grows_modifyIfPresent
            [OF grows_modifyIfPresent [OF grows_refl] ]] ]
    by (simp add: grows_def)
  also have "prefix \<dots> (trace (runMigrations no_failures (Integer 10) ''N9qo8uLOickgx2ZMRZoMye'' empty_world))"
    unfolding run
    using grows_release [OF grows_console_log [OF grows_runPending [OF grows_refl] ]]
    by (simp add: grows_def)
  finally have "prefix ?six (trace (runMigrations no_failures (Integer 10) ''N9qo8uLOickgx2ZMRZoMye'' empty_world))"
    by (simp add: console_log_def)
  then obtain rest where
    "trace (runMigrations no_failures (Integer 10) ''N9qo8uLOickgx2ZMRZoMye'' empty_world) = ?six @ rest"
    by (auto simp: prefix_def)
  then show ?thesis by simp
qed

subsection \<open>Failures inside the loop\<close>

lemma new_events_append: "trace w' = trace w @ evs \<Longrightarrow> new_events w w' = evs"
  by (simp add: new_events_def)

lemma attempts_member:
  assumes "m \<in> set ms" and "length outs = length ms"
  shows "\<exists>pre out post. attempts ms outs = pre @ attempt m out @ post"
  using assms
proof (induction ms outs rule: attempts.induct)
  case (1 m' ms out outs)
  show ?case
  proof (cases "m = m'")
    case True
    have "attempts (m' # ms) (out # outs) = [] @ attempt m out @ attempts ms outs"
      using True by simp
    then show ?thesis by blast
  next
    case False
    then obtain pre out' post where "attempts ms outs = pre @ attempt m out' @ post"
      using 1 by auto
    then have "attempts (m' # ms) (out # outs) = (attempt m' out @ pre) @ attempt m out' @ post"
      by simp
    then show ?thesis by blast
  qed
qed simp_all

lemma repair_event_not_complete: "list_all repair_event R \<Longrightarrow> ConsoleLog MigrationsCheckComplete \<notin> set R"
  by (auto simp: list_all_iff repair_event_def repair_message_def)

text \<open>In a run that gets as far as its closing line, every pending migration is attempted.\<close>

lemma pending_is_attempted:
  assumes "m \<in> set ms" and "Num (mid m) \<notin> applied_ids w"
    and "ConsoleLog MigrationsCheckComplete \<in> set (new_events w (runMigrationsWith fails ms w))"
  shows "\<exists>pre out post. new_events w (runMigrationsWith fails ms w) = pre @ attempt m out @ post"
proof -
  obtain evs where evs: "trace (runMigrationsWith fails ms w) = trace w @ evs"
    and shape:
     "(\<exists>e. evs = [ConsoleLog CheckingDatabaseMigrations, ConsoleError (MigrationFailed e)])
      \<or> (\<exists>e. evs = [ConsoleLog CheckingDatabaseMigrations, Acquire,
                     Query [createMigrationsTable],
                     ConsoleError (MigrationFailed e), Release])
      \<or> (\<exists>e. evs = [ConsoleLog CheckingDatabaseMigrations, Acquire,
                     Query [createMigrationsTable], Query [SelectFrom ''id'' ''migrations''],
                     ConsoleError (MigrationFailed e), Release])
      \<or> (\<exists>R outs. evs =
             [ConsoleLog CheckingDatabaseMigrations, Acquire,
              Query [createMigrationsTable], Query [SelectFrom ''id'' ''migrations''],
              ConsoleLog RunningCriticalSchemaCheck] @ R @
             [ConsoleLog CriticalSchemaCheckComplete] @
             attempts (pending (applied_ids w) ms) outs @
             [ConsoleLog MigrationsCheckComplete, Release]
           \<and> list_all repair_event R
           \<and> length outs = length (pending (applied_ids w) ms))"
    using runMigrationsWith_trace [of fails ms w] by blast
  have new: "new_events w (runMigrationsWith fails ms w) = evs"
    using evs by (rule new_events_append)
  have "ConsoleLog MigrationsCheckComplete \<in> set evs"
    using assms(3) new by simp
  then obtain R outs where loop: "evs =
             [ConsoleLog CheckingDatabaseMigrations, Acquire,
              Query [createMigrationsTable], Query [SelectFrom ''id'' ''migrations''],
              ConsoleLog RunningCriticalSchemaCheck] @ R @
             [ConsoleLog CriticalSchemaCheckComplete] @
             attempts (pending (applied_ids w) ms) outs @
             [ConsoleLog MigrationsCheckComplete, Release]"
    and outs: "length outs = length (pending (applied_ids w) ms)"
    using shape by auto
  have "m \<in> set (pending (applied_ids w) ms)"
    using assms(1,2) by (simp add: pending_def)
  then obtain pre out post where
    "attempts (pending (applied_ids w) ms) outs = pre @ attempt m out @ post"
    using attempts_member outs by blast
  then have "evs = ([ConsoleLog CheckingDatabaseMigrations, Acquire,
              Query [createMigrationsTable], Query [SelectFrom ''id'' ''migrations''],
              ConsoleLog RunningCriticalSchemaCheck] @ R @
             [ConsoleLog CriticalSchemaCheckComplete] @ pre) @ attempt m out @
             (post @ [ConsoleLog MigrationsCheckComplete, Release])"
    using loop by simp
  then show ?thesis
    unfolding new by blast
qed


subsection \<open>Runs in which nothing fails for an outside reason\<close>

lemma exec_create_existing:
  "map_of db ''migrations'' = Some t \<Longrightarrow> exec createMigrationsTable db = Inr ([], db)"
  by (simp add: createMigrationsTable_def)

lemma runMigrationsWith_completes:
  assumes "map_of (tables w) ''migrations'' = Some t" and "''id'' \<in> set (field_names t)"
  shows "ConsoleLog MigrationsCheckComplete
           \<in> set (new_events w (runMigrationsWith no_failures ms w))"
proof -
  let ?w3 = "\<lparr>tables = tables w,
              trace = trace w @ [ConsoleLog CheckingDatabaseMigrations, Acquire,
                Query [createMigrationsTable], Query [SelectFrom ''id'' ''migrations''] ]\<rparr>"
  let ?S = "set (map (\<lambda>r. cell r ''id'') (map (\<lambda>r. [(''id'', cell r ''id'')]) (rows t)))"
  let ?w5 = "runPending no_failures ?S ms (ensureCriticalSchema no_failures ?w3)"
  have run: "runMigrationsWith no_failures ms w = release (console_log MigrationsCheckComplete ?w5)"
    using assms
    by (simp add: runMigrationsWith_def getConnection_no_failures query_no_failures
          exec_create_existing Let_def console_log_def del: set_map map_map)
  have "grows ?w3 ?w5"
    by (intro grows_runPending grows_ensureCriticalSchema grows_refl)
  then obtain evs where "trace ?w5 = trace ?w3 @ evs"
    by (auto simp: grows_def prefix_def)
  then have "trace (runMigrationsWith no_failures ms w) =
     trace w @ ([ConsoleLog CheckingDatabaseMigrations, Acquire,
                Query [createMigrationsTable], Query [SelectFrom ''id'' ''migrations''] ] @ evs @
                [ConsoleLog MigrationsCheckComplete, Release])"
    unfolding run by simp
  then have "new_events w (runMigrationsWith no_failures ms w) =
     [ConsoleLog CheckingDatabaseMigrations, Acquire,
                Query [createMigrationsTable], Query [SelectFrom ''id'' ''migrations''] ] @ evs @
                [ConsoleLog MigrationsCheckComplete, Release]"
    by (rule new_events_append)
  then show ?thesis by simp
qed

lemma fresh_migrations_columns:
  "map_option field_names (map_of (runEffect (migrations h) []) ''migrations'') = Some [''id'']"
  by code_simp

lemma fresh_applied_ids:
  "applied_ids (runMigrations no_failures k s empty_world)
     = Num ` {1, 2, 3, 4, 5, 6, 7, 8, 9, 10, 12, 13, 14, 15}"
proof -
  have "applied_ids (runMigrations no_failures k s empty_world)
          = set (map Num [1, 2, 3, 4, 5, 6, 7, 8, 9, 10, 12, 13, 14, 15])"
    unfolding applied_ids_def by (simp add: fresh_table_rows fresh_rows cell_def)
  then show ?thesis by simp
qed


subsection \<open>Once recorded, never run again\<close>

lemma new_events_trans:
  assumes "grows w w'" and "grows w' w''"
  shows "new_events w w'' = new_events w w' @ new_events w' w''"
proof -
  obtain a where a: "trace w' = trace w @ a"
    using assms(1) by (auto simp: grows_def prefix_def)
  obtain b where b: "trace w'' = trace w' @ b"
    using assms(2) by (auto simp: grows_def prefix_def)
  show ?thesis
    by (simp add: new_events_def a b)
qed

lemma attempts_marker:
  "ConsoleLog (RunningMigration i) \<in> set (attempts ms outs) \<Longrightarrow> i \<in> mid ` set ms"
proof (induction ms outs rule: attempts.induct)
  case (1 m ms out outs)
  then show ?case by (cases out) auto
qed simp_all

lemma repair_event_not_marker:
  "list_all repair_event R \<Longrightarrow> ConsoleLog (RunningMigration i) \<notin> set R"
  by (auto simp: list_all_iff repair_event_def repair_message_def)

lemma pending_mid: "i \<in> mid ` set (pending S ms) \<Longrightarrow> Num i \<notin> S"
  by (auto simp: pending_def)

text \<open>A run announces a migration only if its id was not in the bookkeeping table.\<close>

lemma runMigrationsWith_marker:
  assumes "ConsoleLog (RunningMigration i) \<in> set (new_events w (runMigrationsWith fails ms w))"
  shows "Num i \<notin> applied_ids w"
proof -
  obtain evs where evs: "trace (runMigrationsWith fails ms w) = trace w @ evs"
    and shape:
     "(\<exists>e. evs = [ConsoleLog CheckingDatabaseMigrations, ConsoleError (MigrationFailed e)])
      \<or> (\<exists>e. evs = [ConsoleLog CheckingDatabaseMigrations, Acquire,
                     Query [createMigrationsTable],
                     ConsoleError (MigrationFailed e), Release])
      \<or> (\<exists>e. evs = [ConsoleLog CheckingDatabaseMigrations, Acquire,
                     Query [createMigrationsTable], Query [SelectFrom ''id'' ''migrations''],
                     ConsoleError (MigrationFailed e), Release])
      \<or> (\<exists>R outs. evs =
             [ConsoleLog CheckingDatabaseMigrations, Acquire,
              Query [createMigrationsTable], Query [SelectFrom ''id'' ''migrations''],
              ConsoleLog RunningCriticalSchemaCheck] @ R @
             [ConsoleLog CriticalSchemaCheckComplete] @
             attempts (pending (applied_ids w) ms) outs @
             [ConsoleLog MigrationsCheckComplete, Release]
           \<and> list_all repair_event R
           \<and> length outs = length (pending (applied_ids w) ms))"
    using runMigrationsWith_trace [of fails ms w] by blast
  have "ConsoleLog (RunningMigration i) \<in> set evs"
    using assms new_events_append [OF evs] by simp
  then obtain outs where
    "ConsoleLog (RunningMigration i) \<in> set (attempts (pending (applied_ids w) ms) outs)"
    using shape repair_event_not_marker [of _ i] by auto
  then show ?thesis
    using attempts_marker pending_mid by blast
qed

lemma startups_marker:
  assumes "Num i \<in> applied_ids w"
  shows "ConsoleLog (RunningMigration i) \<notin> set (new_events w (startups runs w))"
  using assms
proof (induction runs arbitrary: w)
  case Nil
  show ?case by (simp add: new_events_def)
next
  case (Cons r runs)
  obtain fails k s where r: "r = (fails, k, s)" by (cases r)
  let ?w' = "runMigrations fails k s w"
  have g1: "grows w ?w'" by (rule grows_runMigrations)
  have g2: "grows ?w' (startups runs ?w')" by (rule grows_startups) (rule grows_refl)
  have "Num i \<in> applied_ids ?w'"
    using Cons.prems grows_applied_ids [OF g1] by blast
  then have later: "ConsoleLog (RunningMigration i) \<notin> set (new_events ?w' (startups runs ?w'))"
    by (rule Cons.IH)
  have first: "ConsoleLog (RunningMigration i) \<notin> set (new_events w ?w')"
    using Cons.prems runMigrationsWith_marker unfolding runMigrations_def by blast
  show ?case
    unfolding r using first later new_events_trans [OF g1 g2] by simp
qed

subsection \<open>Recording follows success, and ids stay distinct\<close>

lemma runMigration_records:
  assumes "list_all (\<lambda>s. target s \<noteq> Some ''migrations'') (sql m)"
    and "table_rows ''migrations'' (runMigration fails S m w) \<noteq> table_rows ''migrations'' w"
  shows "Num (mid m) \<notin> S
     \<and> (\<exists>rs w1. query fails (sql m) (console_log (RunningMigration (mid m)) w) = (Inr rs, w1))
     \<and> table_rows ''migrations'' (runMigration fails S m w)
         = table_rows ''migrations'' w @ [ [(''id'', Num (mid m))] ]"
proof -
  let ?w0 = "console_log (RunningMigration (mid m)) w"
  obtain r1 w1 where q1: "query fails (sql m) ?w0 = (r1, w1)" by (cases "query fails (sql m) ?w0")
  have same: "table_rows ''migrations'' w1 = table_rows ''migrations'' w"
    using query_other_rows [OF q1 assms(1)] by simp
  have p: "Num (mid m) \<notin> S"
    using assms(2) by (auto simp: runMigration_def)
  have "\<exists>rs. r1 = Inr rs"
    using assms(2) p q1 same by (cases r1) (auto simp: runMigration_def)
  moreover have "table_rows ''migrations'' (runMigration fails S m w)
         = table_rows ''migrations'' w @ [ [(''id'', Num (mid m))] ]"
    using runMigration_rows [OF assms(1), of fails S w] assms(2) by blast
  ultimately show ?thesis
    using p q1 by blast
qed

lemma runPending_distinct:
  assumes "list_all (\<lambda>m. list_all (\<lambda>s. target s \<noteq> Some ''migrations'') (sql m)) ms"
    and "distinct (map mid ms)"
    and "distinct (map (\<lambda>r. cell r ''id'') (table_rows ''migrations'' w))"
    and "\<And>m. m \<in> set ms \<Longrightarrow> Num (mid m) \<notin> S \<Longrightarrow> Num (mid m) \<notin> applied_ids w"
  shows "distinct (map (\<lambda>r. cell r ''id'') (table_rows ''migrations'' (runPending fails S ms w)))"
  using assms
proof (induction ms arbitrary: w)
  case Nil
  then show ?case by simp
next
  case (Cons m ms)
  let ?w' = "runMigration fails S m w"
  have free: "list_all (\<lambda>s. target s \<noteq> Some ''migrations'') (sql m)"
    using Cons.prems(1) by simp
  have rows: "table_rows ''migrations'' ?w' = table_rows ''migrations'' w \<or>
         (Num (mid m) \<notin> S \<and>
          table_rows ''migrations'' ?w' = table_rows ''migrations'' w @ [ [(''id'', Num (mid m))] ])"
    by (rule runMigration_rows [OF free])
  have d: "distinct (map (\<lambda>r. cell r ''id'') (table_rows ''migrations'' ?w'))"
    using rows Cons.prems(3) Cons.prems(4) [of m]
    by (auto simp: applied_ids_def cell_def)
  have ids: "applied_ids ?w' \<subseteq> insert (Num (mid m)) (applied_ids w)"
    by (rule runMigration_applied_ids [OF free])
  have inv: "Num (mid m') \<notin> applied_ids ?w'" if "m' \<in> set ms" "Num (mid m') \<notin> S" for m'
  proof -
    have "mid m' \<noteq> mid m"
      using that(1) Cons.prems(2) by (metis distinct.simps(2) image_eqI list.simps(9) set_map)
    moreover have "Num (mid m') \<notin> applied_ids w"
      using that Cons.prems(4) by simp
    ultimately show ?thesis
      using ids by auto
  qed
  have "distinct (map (\<lambda>r. cell r ''id'') (table_rows ''migrations'' (runPending fails S ms ?w')))"
    using Cons.prems(1,2) d inv by (intro Cons.IH) simp_all
  then show ?case by simp
qed

lemma runMigrationsWith_distinct:
  assumes "list_all (\<lambda>m. list_all (\<lambda>s. target s \<noteq> Some ''migrations'') (sql m)) ms"
    and "distinct (map mid ms)"
    and "distinct (map (\<lambda>r. cell r ''id'') (table_rows ''migrations'' w))"
  shows "distinct (map (\<lambda>r. cell r ''id'')
                     (table_rows ''migrations'' (runMigrationsWith fails ms w)))"
proof -
  let ?w0 = "console_log CheckingDatabaseMigrations w"
  obtain r1 w1 where c: "getConnection fails ?w0 = (r1, w1)" by (cases "getConnection fails ?w0")
  obtain r2 w2 where q2: "query fails [createMigrationsTable] w1 = (r2, w2)"
    by (cases "query fails [createMigrationsTable] w1")
  obtain r3 w3 where q3: "query fails [SelectFrom ''id'' ''migrations''] w2 = (r3, w3)"
    by (cases "query fails [SelectFrom ''id'' ''migrations''] w2")
  have 1: "table_rows ''migrations'' w1 = table_rows ''migrations'' w"
    using getConnection_tables [OF c] by (simp add: table_rows_def)
  have 2: "table_rows ''migrations'' w2 = table_rows ''migrations'' w"
    using query_create_rows [OF q2] 1 by simp
  have 3: "table_rows ''migrations'' w3 = table_rows ''migrations'' w"
    using query_select_tables [OF q3] 2 by (simp add: table_rows_def)
  have 4: "table_rows ''migrations'' (ensureCriticalSchema fails w3) = table_rows ''migrations'' w"
    using 3 by (simp add: ensureCriticalSchema_rows)
  have 5: "distinct (map (\<lambda>r. cell r ''id'')
             (table_rows ''migrations''
                (runPending fails (set (map (\<lambda>r. cell r ''id'') executedRows)) ms
                   (ensureCriticalSchema fails w3))))"
    if "r3 = Inr executedRows" for executedRows
  proof -
    have "applied_ids w2 = applied_ids w"
      using 2 by (simp add: applied_ids_def)
    then have S: "set (map (\<lambda>r. cell r ''id'') executedRows) = applied_ids w"
      using query_select_ids q3 that by blast
    have "applied_ids (ensureCriticalSchema fails w3) = applied_ids w"
      using 4 by (simp add: applied_ids_def)
    then show ?thesis
      unfolding S using assms 4 by (intro runPending_distinct) simp_all
  qed
  show ?thesis
    using assms(3) 1 2 3 5
    by (simp add: runMigrationsWith_def Let_def c q2 q3 split: sum.splits del: set_map)
qed

lemma startups_distinct:
  assumes "distinct (map (\<lambda>r. cell r ''id'') (table_rows ''migrations'' w))"
  shows "distinct (map (\<lambda>r. cell r ''id'') (table_rows ''migrations'' (startups runs w)))"
  using assms
proof (induction runs arbitrary: w)
  case Nil
  then show ?case by simp
next
  case (Cons r runs)
  obtain fails k s where r: "r = (fails, k, s)" by (cases r)
  have "distinct (map (\<lambda>r. cell r ''id'')
          (table_rows ''migrations'' (runMigrations fails k s w)))"
    unfolding runMigrations_def
    using Cons.prems migrations_leave_bookkeeping
    by (intro runMigrationsWith_distinct) (simp_all add: mid_migrations)
  then show ?case
    unfolding r by (simp add: Cons.IH)
qed

lemma migrations_member_free:
  "m \<in> set (migrations h) \<Longrightarrow> list_all (\<lambda>s. target s \<noteq> Some ''migrations'') (sql m)"
  using migrations_leave_bookkeeping [of h] by (simp add: list_all_iff)

lemma runMigration_record_failed:
  assumes "Num (mid m) \<notin> S"
    and "query fails (sql m) (console_log (RunningMigration (mid m)) w) = (Inr rs, w1)"
    and "query fails [recordMigration (mid m)] w1 = (Inl err, w2)"
  shows "new_events w (runMigration fails S m w) = attempt m (RecordFailed err)"
    and "list_all (\<lambda>s. target s \<noteq> Some ''migrations'') (sql m) \<Longrightarrow>
           applied_ids (runMigration fails S m w) = applied_ids w"
proof -
  let ?w' = "runMigration fails S m w"
  have step: "?w' = console_error (MigrationFailedId (mid m) err) w2"
    using assms by (simp add: runMigration_def)
  have t1: "trace w1 = trace w @ [ConsoleLog (RunningMigration (mid m)), Query (sql m)]"
    using queryE(1) [OF assms(2)] by simp
  have t2: "trace w2 = trace w1 @ [Query [recordMigration (mid m)]]"
    using queryE(1) [OF assms(3)] by simp
  have tr: "trace ?w' = trace w @ attempt m (RecordFailed err)"
    using step t1 t2 by simp
  show "new_events w ?w' = attempt m (RecordFailed err)"
    using tr by (rule new_events_append)
  have same2: "tables w2 = tables w1"
    using queryE(2,3) [OF assms(3)]
    by (cases "exec (recordMigration (mid m)) (tables w1)") (auto split: if_splits)
  show "applied_ids ?w' = applied_ids w"
    if "list_all (\<lambda>s. target s \<noteq> Some ''migrations'') (sql m)"
    using query_other_rows [OF assms(2) that] step same2
    by (simp add: applied_ids_def table_rows_def)
qed

lemma runMigration_sql_failed:
  assumes "Num (mid m) \<notin> S"
    and "query fails (sql m) (console_log (RunningMigration (mid m)) w) = (Inl err, w1)"
  shows "new_events w (runMigration fails S m w) = attempt m (SqlFailed err)"
    and "list_all (\<lambda>s. target s \<noteq> Some ''migrations'') (sql m) \<Longrightarrow>
           applied_ids (runMigration fails S m w) = applied_ids w"
proof -
  let ?w' = "runMigration fails S m w"
  have step: "?w' = console_error (MigrationFailedId (mid m) err) w1"
    using assms by (simp add: runMigration_def)
  have t1: "trace w1 = trace w @ [ConsoleLog (RunningMigration (mid m)), Query (sql m)]"
    using queryE(1) [OF assms(2)] by simp
  have tr: "trace ?w' = trace w @ attempt m (SqlFailed err)"
    using step t1 by simp
  show "new_events w ?w' = attempt m (SqlFailed err)"
    using tr by (rule new_events_append)
  show "applied_ids ?w' = applied_ids w"
    if "list_all (\<lambda>s. target s \<noteq> Some ''migrations'') (sql m)"
    using query_other_rows [OF assms(2) that] step by (simp add: applied_ids_def)
qed

text \<open>
  C4 (as amended). Across any sequence of startups, whatever fails in them: a migration
  whose id is recorded stays recorded and is never announced or executed again; the ids
  in the bookkeeping table stay distinct, so a row is created at most once per id; and
  a loop step changes the bookkeeping table only by adding the row of its migration,
  which it does only when the id was pending and the migration's SQL has just succeeded.
  A loop step in which the SQL of a pending migration raises, or in which its SQL
  succeeds and the bookkeeping INSERT raises, ends with the failure line and records
  nothing; and a migration whose id is not recorded is executed again, from its first
  statement, by every later run that gets as far as its closing line (that is, every run
  that obtains a connection and creates and reads the bookkeeping table).
\<close>

theorem recorded_once_and_never_rerun:
  "(Num i \<in> applied_ids w \<longrightarrow>
      Num i \<in> applied_ids (startups runs w) \<and>
      ConsoleLog (RunningMigration i) \<notin> set (new_events w (startups runs w)))
   \<and> (distinct (map (\<lambda>r. cell r ''id'') (table_rows ''migrations'' w)) \<longrightarrow>
       distinct (map (\<lambda>r. cell r ''id'') (table_rows ''migrations'' (startups runs w))))
   \<and> (m \<in> set (migrations h) \<and>
       table_rows ''migrations'' (runMigration fails S m w) \<noteq> table_rows ''migrations'' w \<longrightarrow>
         Num (mid m) \<notin> S
         \<and> (\<exists>rs w1. query fails (sql m) (console_log (RunningMigration (mid m)) w) = (Inr rs, w1))
         \<and> table_rows ''migrations'' (runMigration fails S m w)
             = table_rows ''migrations'' w @ [ [(''id'', Num (mid m))] ])
   \<and> (m \<in> set (migrations h) \<and> Num (mid m) \<notin> S \<and>
       query fails (sql m) (console_log (RunningMigration (mid m)) w) = (Inl err1, w1) \<longrightarrow>
         new_events w (runMigration fails S m w) = attempt m (SqlFailed err1)
         \<and> applied_ids (runMigration fails S m w) = applied_ids w)
   \<and> (m \<in> set (migrations h) \<and> Num (mid m) \<notin> S \<and>
       query fails (sql m) (console_log (RunningMigration (mid m)) w) = (Inr rs, w2) \<and>
       query fails [recordMigration (mid m)] w2 = (Inl err2, w3) \<longrightarrow>
         new_events w (runMigration fails S m w) = attempt m (RecordFailed err2)
         \<and> applied_ids (runMigration fails S m w) = applied_ids w)
   \<and> (m \<in> set ms' \<and> Num (mid m) \<notin> applied_ids w' \<and>
       ConsoleLog MigrationsCheckComplete \<in> set (new_events w' (runMigrationsWith fails' ms' w'))
       \<longrightarrow> (\<exists>pre out post.
              new_events w' (runMigrationsWith fails' ms' w') = pre @ attempt m out @ post))"
proof -
  have "grows w (startups runs w)"
    by (rule grows_startups) (rule grows_refl)
  then have sub: "applied_ids w \<subseteq> applied_ids (startups runs w)"
    by (rule grows_applied_ids)
  have first: "Num i \<in> applied_ids w \<longrightarrow>
      Num i \<in> applied_ids (startups runs w) \<and>
      ConsoleLog (RunningMigration i) \<notin> set (new_events w (startups runs w))"
    using sub startups_marker [of i w runs] by auto
  have second: "distinct (map (\<lambda>r. cell r ''id'') (table_rows ''migrations'' w)) \<longrightarrow>
       distinct (map (\<lambda>r. cell r ''id'') (table_rows ''migrations'' (startups runs w)))"
    using startups_distinct [of w runs] by simp
  have third: "m \<in> set (migrations h) \<and>
       table_rows ''migrations'' (runMigration fails S m w) \<noteq> table_rows ''migrations'' w \<longrightarrow>
         Num (mid m) \<notin> S
         \<and> (\<exists>rs w1. query fails (sql m) (console_log (RunningMigration (mid m)) w) = (Inr rs, w1))
         \<and> table_rows ''migrations'' (runMigration fails S m w)
             = table_rows ''migrations'' w @ [ [(''id'', Num (mid m))] ]"
  proof (intro impI, elim conjE)
    assume "m \<in> set (migrations h)"
      and ch: "table_rows ''migrations'' (runMigration fails S m w) \<noteq> table_rows ''migrations'' w"
    then have "list_all (\<lambda>s. target s \<noteq> Some ''migrations'') (sql m)"
      by (simp add: migrations_member_free)
    then show "Num (mid m) \<notin> S
         \<and> (\<exists>rs w1. query fails (sql m) (console_log (RunningMigration (mid m)) w) = (Inr rs, w1))
         \<and> table_rows ''migrations'' (runMigration fails S m w)
             = table_rows ''migrations'' w @ [ [(''id'', Num (mid m))] ]"
      using ch by (rule runMigration_records)
  qed
  have fourth: "m \<in> set (migrations h) \<and> Num (mid m) \<notin> S \<and>
       query fails (sql m) (console_log (RunningMigration (mid m)) w) = (Inl err1, w1) \<longrightarrow>
         new_events w (runMigration fails S m w) = attempt m (SqlFailed err1)
         \<and> applied_ids (runMigration fails S m w) = applied_ids w"
  proof (intro impI, elim conjE)
    assume mem: "m \<in> set (migrations h)" and p: "Num (mid m) \<notin> S"
      and q: "query fails (sql m) (console_log (RunningMigration (mid m)) w) = (Inl err1, w1)"
    have free: "list_all (\<lambda>s. target s \<noteq> Some ''migrations'') (sql m)"
      using mem by (rule migrations_member_free)
    show "new_events w (runMigration fails S m w) = attempt m (SqlFailed err1)
         \<and> applied_ids (runMigration fails S m w) = applied_ids w"
      using runMigration_sql_failed(1) [OF p q] runMigration_sql_failed(2) [OF p q free]
      by (rule conjI)
  qed
  have fifth: "m \<in> set (migrations h) \<and> Num (mid m) \<notin> S \<and>
       query fails (sql m) (console_log (RunningMigration (mid m)) w) = (Inr rs, w2) \<and>
       query fails [recordMigration (mid m)] w2 = (Inl err2, w3) \<longrightarrow>
         new_events w (runMigration fails S m w) = attempt m (RecordFailed err2)
         \<and> applied_ids (runMigration fails S m w) = applied_ids w"
  proof (intro impI, elim conjE)
    assume mem: "m \<in> set (migrations h)" and p: "Num (mid m) \<notin> S"
      and q: "query fails (sql m) (console_log (RunningMigration (mid m)) w) = (Inr rs, w2)"
      and r: "query fails [recordMigration (mid m)] w2 = (Inl err2, w3)"
    have free: "list_all (\<lambda>s. target s \<noteq> Some ''migrations'') (sql m)"
      using mem by (rule migrations_member_free)
    show "new_events w (runMigration fails S m w) = attempt m (RecordFailed err2)
         \<and> applied_ids (runMigration fails S m w) = applied_ids w"
      using runMigration_record_failed(1) [OF p q r] runMigration_record_failed(2) [OF p q r free]
      by (rule conjI)
  qed
  have sixth: "m \<in> set ms' \<and> Num (mid m) \<notin> applied_ids w' \<and>
       ConsoleLog MigrationsCheckComplete \<in> set (new_events w' (runMigrationsWith fails' ms' w'))
       \<longrightarrow> (\<exists>pre out post.
              new_events w' (runMigrationsWith fails' ms' w') = pre @ attempt m out @ post)"
  proof (intro impI, elim conjE)
    assume "m \<in> set ms'" and "Num (mid m) \<notin> applied_ids w'"
      and "ConsoleLog MigrationsCheckComplete \<in> set (new_events w' (runMigrationsWith fails' ms' w'))"
    then show "\<exists>pre out post.
              new_events w' (runMigrationsWith fails' ms' w') = pre @ attempt m out @ post"
      by (rule pending_is_attempted)
  qed
  show ?thesis
    using first second third fourth fifth sixth by (intro conjI)
qed

lemma runMigrationsWith_completes_new:
  assumes "map_of (tables w) ''migrations'' = None"
  shows "ConsoleLog MigrationsCheckComplete
           \<in> set (new_events w (runMigrationsWith no_failures ms w))"
proof -
  let ?db = "AList.update ''migrations''
               \<lparr>columns = [(''id'', ''INT PRIMARY KEY'')], uniques = [''id''], rows = []\<rparr> (tables w)"
  let ?w3 = "\<lparr>tables = ?db,
              trace = trace w @ [ConsoleLog CheckingDatabaseMigrations, Acquire,
                Query [createMigrationsTable], Query [SelectFrom ''id'' ''migrations''] ]\<rparr>"
  let ?w5 = "runPending no_failures {} ms (ensureCriticalSchema no_failures ?w3)"
  have c: "exec createMigrationsTable (tables w) = Inr ([], ?db)"
    using assms by (simp add: createMigrationsTable_def)
  have s: "exec (SelectFrom ''id'' ''migrations'') ?db = Inr ([], ?db)"
    by (simp add: update_conv' field_names_def)
  have run: "runMigrationsWith no_failures ms w = release (console_log MigrationsCheckComplete ?w5)"
    by (simp add: runMigrationsWith_def getConnection_no_failures query_no_failures
          c s Let_def console_log_def del: exec.simps)
  have "grows ?w3 ?w5"
    by (intro grows_runPending grows_ensureCriticalSchema grows_refl)
  then obtain evs where "trace ?w5 = trace ?w3 @ evs"
    by (auto simp: grows_def prefix_def)
  then have "trace (runMigrationsWith no_failures ms w) =
     trace w @ ([ConsoleLog CheckingDatabaseMigrations, Acquire,
                Query [createMigrationsTable], Query [SelectFrom ''id'' ''migrations''] ] @ evs @
                [ConsoleLog MigrationsCheckComplete, Release])"
    unfolding run by simp
  then have "new_events w (runMigrationsWith no_failures ms w) =
     [ConsoleLog CheckingDatabaseMigrations, Acquire,
                Query [createMigrationsTable], Query [SelectFrom ''id'' ''migrations''] ] @ evs @
                [ConsoleLog MigrationsCheckComplete, Release]"
    by (rule new_events_append)
  then show ?thesis by simp
qed

lemma attempt_starts:
  "\<exists>rest. attempt m out = [ConsoleLog (RunningMigration (mid m)), Query (sql m)] @ rest"
  by (cases out) simp_all

lemma attempted_sublist:
  assumes "new = pre @ attempt m out @ post"
  shows "sublist [ConsoleLog (RunningMigration (mid m)), Query (sql m)] new"
proof -
  obtain rest where "attempt m out = [ConsoleLog (RunningMigration (mid m)), Query (sql m)] @ rest"
    using attempt_starts by blast
  then have "new = pre @ [ConsoleLog (RunningMigration (mid m)), Query (sql m)] @ (rest @ post)"
    using assms by simp
  then show ?thesis
    unfolding sublist_def by blast
qed

lemma second_rows:
  "map (\<lambda>(n, t). (n, rows t)) (runEffect (migrations h') (runEffect (migrations h) [])) =
     [(''migrations'', map (\<lambda>i. [(''id'', Num i)]) [1, 2, 3, 4, 5, 6, 7, 8, 9, 10, 12, 13, 14, 15]),
      (''users'', [adminRow h]),
      (''equipment'', []),
      (''licenses'', []),
      (''equipment_history'', []),
      (''audit_log'', []),
      (''app_config'',
        [configRow ''companyName'' (Str ''MRR INFORMATICA''),
         configRow ''isSsoEnabled'' (Str ''false''),
         configRow ''termo_entrega_template'' Null,
         configRow ''termo_devolucao_template'' Null,
         configRow ''is2faEnabled'' (Str ''false'')])]"
  by code_simp

lemma second_table_rows:
  "table_rows n (runMigrations no_failures k' s' (runMigrations no_failures k s empty_world)) =
     (case map_of (map (\<lambda>(n, t). (n, rows t))
             (runEffect (migrations (hashSync ''marceloadmin'' k' s'))
                (runEffect (migrations (hashSync ''marceloadmin'' k s)) []))) n of
        None \<Rightarrow> [] | Some rs \<Rightarrow> rs)"
  by (simp add: table_rows_def runMigrations_tables empty_world_def rows_in_map)

lemma second_applied_ids:
  "applied_ids (runMigrations no_failures k' s' (runMigrations no_failures k s empty_world))
     = Num ` {1, 2, 3, 4, 5, 6, 7, 8, 9, 10, 12, 13, 14, 15}"
proof -
  have "applied_ids (runMigrations no_failures k' s' (runMigrations no_failures k s empty_world))
          = set (map Num [1, 2, 3, 4, 5, 6, 7, 8, 9, 10, 12, 13, 14, 15])"
    unfolding applied_ids_def by (simp add: second_table_rows second_rows cell_def)
  then show ?thesis by simp
qed

lemma migration_11_member:
  "\<lparr>mid = 11, sql = [AlterAddColumn ''users'' ''avatarUrl'' ''MEDIUMTEXT'']\<rparr> \<in> set (migrations h)"
  by (simp add: migrations_def)

text \<open>
  Against C4 as stated (each migration's SQL is executed exactly once): starting from an
  empty database with nothing failing for an outside reason, the first start announces
  migration 11 and sends its SQL, the second start does so again, and after both its id
  is still not recorded.
\<close>

theorem migration_11_runs_at_every_start:
  "sublist [ConsoleLog (RunningMigration 11),
            Query [AlterAddColumn ''users'' ''avatarUrl'' ''MEDIUMTEXT''] ]
     (new_events empty_world
        (startups [(no_failures, Integer 10, ''N9qo8uLOickgx2ZMRZoMye'')] empty_world))
   \<and> sublist [ConsoleLog (RunningMigration 11),
               Query [AlterAddColumn ''users'' ''avatarUrl'' ''MEDIUMTEXT''] ]
     (new_events (startups [(no_failures, Integer 10, ''N9qo8uLOickgx2ZMRZoMye'')] empty_world)
        (startups [(no_failures, Integer 10, ''N9qo8uLOickgx2ZMRZoMye''),
                   (no_failures, Integer 10, ''Xk3vU0pLq1dW8sTzR5yB2e'')] empty_world))
   \<and> Num 11 \<notin> applied_ids
        (startups [(no_failures, Integer 10, ''N9qo8uLOickgx2ZMRZoMye''),
                   (no_failures, Integer 10, ''Xk3vU0pLq1dW8sTzR5yB2e'')] empty_world)"
proof -
  let ?m = "\<lparr>mid = 11, sql = [AlterAddColumn ''users'' ''avatarUrl'' ''MEDIUMTEXT'']\<rparr>"
  let ?h1 = "hashSync ''marceloadmin'' (Integer 10) ''N9qo8uLOickgx2ZMRZoMye''"
  let ?h2 = "hashSync ''marceloadmin'' (Integer 10) ''Xk3vU0pLq1dW8sTzR5yB2e''"
  let ?W1 = "runMigrations no_failures (Integer 10) ''N9qo8uLOickgx2ZMRZoMye'' empty_world"
  let ?W2 = "runMigrations no_failures (Integer 10) ''Xk3vU0pLq1dW8sTzR5yB2e'' ?W1"
  have "ConsoleLog MigrationsCheckComplete
          \<in> set (new_events empty_world (runMigrationsWith no_failures (migrations ?h1) empty_world))"
    by (rule runMigrationsWith_completes_new) (simp add: empty_world_def)
  then have "\<exists>pre out post. new_events empty_world (runMigrationsWith no_failures (migrations ?h1) empty_world)
               = pre @ attempt ?m out @ post"
    by (intro pending_is_attempted migration_11_member)
       (simp_all add: applied_ids_def table_rows_def rows_in_def empty_world_def)
  then have first: "sublist [ConsoleLog (RunningMigration 11),
            Query [AlterAddColumn ''users'' ''avatarUrl'' ''MEDIUMTEXT''] ]
          (new_events empty_world ?W1)"
    unfolding runMigrations_def using attempted_sublist [of _ _ ?m] by fastforce
  obtain t where t: "map_of (tables ?W1) ''migrations'' = Some t" "''id'' \<in> set (field_names t)"
    using fresh_migrations_columns [of ?h1]
    by (auto simp: runMigrations_tables empty_world_def)
  have pend: "Num (mid ?m) \<notin> applied_ids ?W1"
    by (auto simp: fresh_applied_ids)
  have "ConsoleLog MigrationsCheckComplete
          \<in> set (new_events ?W1 (runMigrationsWith no_failures (migrations ?h2) ?W1))"
    using t by (rule runMigrationsWith_completes)
  then have "\<exists>pre out post. new_events ?W1 (runMigrationsWith no_failures (migrations ?h2) ?W1)
               = pre @ attempt ?m out @ post"
    using pend by (intro pending_is_attempted migration_11_member)
  then have second: "sublist [ConsoleLog (RunningMigration 11),
            Query [AlterAddColumn ''users'' ''avatarUrl'' ''MEDIUMTEXT''] ]
          (new_events ?W1 ?W2)"
    unfolding runMigrations_def using attempted_sublist [of _ _ ?m] by fastforce
  have "Num 11 \<notin> applied_ids ?W2"
    by (auto simp: second_applied_ids)
  with first second show ?thesis by simp
qed

text \<open>
  C4 (as amended) at concrete inputs. After a first start on an empty database,
  migration 7 is recorded: a second start leaves it recorded and does not announce it,
  and the ids stay distinct. Migration 11 is not recorded: at the second start its SQL
  raises, the step ends with the failure line and records nothing, and the second start
  as a whole attempts it. On a database holding the bookkeeping table and
  \<open>app_config\<close>, the loop step for migration 15 adds the row of id 15 after its SQL
  succeeded; and when the bookkeeping INSERT of that step fails, the step ends with the
  failure line and records nothing.
\<close>

theorem recorded_once_and_never_rerun_witness:
  "Num 7 \<in> applied_ids
      (startups [(no_failures, Integer 10, ''Xk3vU0pLq1dW8sTzR5yB2e'')]
         (runMigrations no_failures (Integer 10) ''N9qo8uLOickgx2ZMRZoMye'' empty_world))
   \<and> ConsoleLog (RunningMigration 7) \<notin> set
       (new_events (runMigrations no_failures (Integer 10) ''N9qo8uLOickgx2ZMRZoMye'' empty_world)
          (startups [(no_failures, Integer 10, ''Xk3vU0pLq1dW8sTzR5yB2e'')]
             (runMigrations no_failures (Integer 10) ''N9qo8uLOickgx2ZMRZoMye'' empty_world)))
   \<and> distinct (map (\<lambda>r. cell r ''id'')
       (table_rows ''migrations''
          (startups [(no_failures, Integer 10, ''Xk3vU0pLq1dW8sTzR5yB2e'')]
             (runMigrations no_failures (Integer 10) ''N9qo8uLOickgx2ZMRZoMye'' empty_world))))
   \<and> table_rows ''migrations''
        (runMigration no_failures {}
           \<lparr>mid = 15, sql = [InsertIgnore ''app_config'' (configRow ''is2faEnabled'' (Str ''false''))]\<rparr>
           \<lparr>tables =
              [(''migrations'',
                 \<lparr>columns = [(''id'', ''INT PRIMARY KEY'')], uniques = [''id''], rows = []\<rparr>),
               (''app_config'',
                 \<lparr>columns = [(''id'', ''INT AUTO_INCREMENT PRIMARY KEY''),
                              (''config_key'', ''VARCHAR(255) NOT NULL UNIQUE''),
                              (''config_value'', ''TEXT'')],
                    uniques = [''id'', ''config_key''], rows = []\<rparr>)],
             trace = []\<rparr>)
       = [ [(''id'', Num 15)] ]
   \<and> Num 11 \<notin> applied_ids (runMigrations no_failures (Integer 10) ''N9qo8uLOickgx2ZMRZoMye'' empty_world)
   \<and> new_events (runMigrations no_failures (Integer 10) ''N9qo8uLOickgx2ZMRZoMye'' empty_world)
        (runMigration no_failures
           (applied_ids (runMigrations no_failures (Integer 10) ''N9qo8uLOickgx2ZMRZoMye'' empty_world))
           \<lparr>mid = 11, sql = [AlterAddColumn ''users'' ''avatarUrl'' ''MEDIUMTEXT'']\<rparr>
           (runMigrations no_failures (Integer 10) ''N9qo8uLOickgx2ZMRZoMye'' empty_world))
       = [ConsoleLog (RunningMigration 11),
          Query [AlterAddColumn ''users'' ''avatarUrl'' ''MEDIUMTEXT''],
          ConsoleError (MigrationFailedId 11 (ER_DUP_FIELDNAME ''avatarUrl''))]
   \<and> Num 11 \<notin> applied_ids
        (runMigration no_failures
           (applied_ids (runMigrations no_failures (Integer 10) ''N9qo8uLOickgx2ZMRZoMye'' empty_world))
           \<lparr>mid = 11, sql = [AlterAddColumn ''users'' ''avatarUrl'' ''MEDIUMTEXT'']\<rparr>
           (runMigrations no_failures (Integer 10) ''N9qo8uLOickgx2ZMRZoMye'' empty_world))
   \<and> (\<exists>pre out post.
         new_events (runMigrations no_failures (Integer 10) ''N9qo8uLOickgx2ZMRZoMye'' empty_world)
           (runMigrations no_failures (Integer 10) ''Xk3vU0pLq1dW8sTzR5yB2e''
              (runMigrations no_failures (Integer 10) ''N9qo8uLOickgx2ZMRZoMye'' empty_world))
         = pre @ attempt \<lparr>mid = 11, sql = [AlterAddColumn ''users'' ''avatarUrl'' ''MEDIUMTEXT'']\<rparr> out
             @ post)
   \<and> new_events
        \<lparr>tables =
           [(''migrations'',
              \<lparr>columns = [(''id'', ''INT PRIMARY KEY'')], uniques = [''id''], rows = []\<rparr>),
            (''app_config'',
              \<lparr>columns = [(''id'', ''INT AUTO_INCREMENT PRIMARY KEY''),
                           (''config_key'', ''VARCHAR(255) NOT NULL UNIQUE''),
                           (''config_value'', ''TEXT'')],
                 uniques = [''id'', ''config_key''], rows = []\<rparr>)],
          trace = []\<rparr>
        (runMigration (\<lambda>n. n = 2) {}
           \<lparr>mid = 15, sql = [InsertIgnore ''app_config'' (configRow ''is2faEnabled'' (Str ''false''))]\<rparr>
           \<lparr>tables =
              [(''migrations'',
                 \<lparr>columns = [(''id'', ''INT PRIMARY KEY'')], uniques = [''id''], rows = []\<rparr>),
               (''app_config'',
                 \<lparr>columns = [(''id'', ''INT AUTO_INCREMENT PRIMARY KEY''),
                              (''config_key'', ''VARCHAR(255) NOT NULL UNIQUE''),
                              (''config_value'', ''TEXT'')],
                    uniques = [''id'', ''config_key''], rows = []\<rparr>)],
             trace = []\<rparr>)
       = [ConsoleLog (RunningMigration 15),
          Query [InsertIgnore ''app_config'' (configRow ''is2faEnabled'' (Str ''false''))],
          Query [InsertInto ''migrations'' [(''id'', Num 15)] ],
          ConsoleError (MigrationFailedId 15 ER_OTHER)]
   \<and> applied_ids
        (runMigration (\<lambda>n. n = 2) {}
           \<lparr>mid = 15, sql = [InsertIgnore ''app_config'' (configRow ''is2faEnabled'' (Str ''false''))]\<rparr>
           \<lparr>tables =
              [(''migrations'',
                 \<lparr>columns = [(''id'', ''INT PRIMARY KEY'')], uniques = [''id''], rows = []\<rparr>),
               (''app_config'',
                 \<lparr>columns = [(''id'', ''INT AUTO_INCREMENT PRIMARY KEY''),
                              (''config_key'', ''VARCHAR(255) NOT NULL UNIQUE''),
                              (''config_value'', ''TEXT'')],
                    uniques = [''id'', ''config_key''], rows = []\<rparr>)],
             trace = []\<rparr>)
       = {}"
proof -
  let ?W1 = "runMigrations no_failures (Integer 10) ''N9qo8uLOickgx2ZMRZoMye'' empty_world"
  let ?runs = "[(no_failures, Integer 10, ''Xk3vU0pLq1dW8sTzR5yB2e'')]"
  let ?m = "\<lparr>mid = 15, sql = [InsertIgnore ''app_config'' (configRow ''is2faEnabled'' (Str ''false''))]\<rparr>"
  let ?m11 = "\<lparr>mid = 11, sql = [AlterAddColumn ''users'' ''avatarUrl'' ''MEDIUMTEXT'']\<rparr>"
  let ?w = "\<lparr>tables =
              [(''migrations'',
                 \<lparr>columns = [(''id'', ''INT PRIMARY KEY'')], uniques = [''id''], rows = []\<rparr>),
               (''app_config'',
                 \<lparr>columns = [(''id'', ''INT AUTO_INCREMENT PRIMARY KEY''),
                              (''config_key'', ''VARCHAR(255) NOT NULL UNIQUE''),
                              (''config_value'', ''TEXT'')],
                    uniques = [''id'', ''config_key''], rows = []\<rparr>)],
             trace = []\<rparr>"
  let ?h = "hashSync ''marceloadmin'' (Integer 10) ''N9qo8uLOickgx2ZMRZoMye''"
  let ?h2 = "hashSync ''marceloadmin'' (Integer 10) ''Xk3vU0pLq1dW8sTzR5yB2e''"
  let ?f = "\<lambda>n :: nat. n = 2"
  have rec7: "Num 7 \<in> applied_ids ?W1"
    by (simp add: fresh_applied_ids)
  have dist: "distinct (map (\<lambda>r. cell r ''id'') (table_rows ''migrations'' ?W1))"
    by (simp add: fresh_table_rows fresh_rows cell_def)
  note first = recorded_once_and_never_rerun [where i = 7 and w = ?W1 and runs = ?runs]
  have a: "Num 7 \<in> applied_ids (startups ?runs ?W1) \<and>
           ConsoleLog (RunningMigration 7) \<notin> set (new_events ?W1 (startups ?runs ?W1))"
    using first [THEN conjunct1] rec7 by blast
  have b: "distinct (map (\<lambda>r. cell r ''id'') (table_rows ''migrations'' (startups ?runs ?W1)))"
    using first [THEN conjunct2, THEN conjunct1] dist by blast
  have mem: "?m \<in> set (migrations ?h)"
    by (simp add: migrations_def)
  have rows: "table_rows ''migrations'' (runMigration no_failures {} ?m ?w) = [ [(''id'', Num 15)] ]"
    by (simp add: table_rows_def runMigration_tables migrationEffect_def tolerant_def
          recordMigration_def configRow_def unknown_fields_def field_names_def
          duplicate_key_def cell_def rows_in_def)
  then have changed: "table_rows ''migrations'' (runMigration no_failures {} ?m ?w)
                        \<noteq> table_rows ''migrations'' ?w"
    by (simp add: table_rows_def rows_in_def)
  note step = recorded_once_and_never_rerun
    [where w = ?w and m = ?m and h = ?h and fails = no_failures and S = "{}",
     THEN conjunct2, THEN conjunct2, THEN conjunct1, rule_format, OF conjI [OF mem changed] ]
  have c: "table_rows ''migrations'' (runMigration no_failures {} ?m ?w) = [ [(''id'', Num 15)] ]"
    using step by (simp add: table_rows_def rows_in_def)
  have pend: "Num (mid ?m11) \<notin> applied_ids ?W1"
    by (auto simp: fresh_applied_ids)
  define W1' where "W1' = snd (query no_failures (sql ?m11) (console_log (RunningMigration (mid ?m11)) ?W1))"
  have "fst (exec_all (sql ?m11) [] (tables ?W1)) = Inl (ER_DUP_FIELDNAME ''avatarUrl'')"
    using fresh_users_columns [of ?h]
    by (auto simp: runMigrations_tables empty_world_def split: option.splits)
  then have q11: "query no_failures (sql ?m11) (console_log (RunningMigration (mid ?m11)) ?W1)
                    = (Inl (ER_DUP_FIELDNAME ''avatarUrl''), W1')"
    unfolding W1'_def by (simp add: query_no_failures)
  note failed = recorded_once_and_never_rerun
    [where w = ?W1 and m = ?m11 and h = ?h and fails = no_failures and S = "applied_ids ?W1"
       and ?err1.0 = "ER_DUP_FIELDNAME ''avatarUrl''" and ?w1.0 = W1',
     THEN conjunct2, THEN conjunct2, THEN conjunct2, THEN conjunct1, rule_format,
     OF conjI [OF migration_11_member conjI [OF pend q11] ] ]
  have d: "new_events ?W1 (runMigration no_failures (applied_ids ?W1) ?m11 ?W1)
             = [ConsoleLog (RunningMigration 11),
                Query [AlterAddColumn ''users'' ''avatarUrl'' ''MEDIUMTEXT''],
                ConsoleError (MigrationFailedId 11 (ER_DUP_FIELDNAME ''avatarUrl''))]"
    using failed [THEN conjunct1] by simp
  have e: "Num 11 \<notin> applied_ids (runMigration no_failures (applied_ids ?W1) ?m11 ?W1)"
    using failed [THEN conjunct2] pend by simp
  obtain t where t: "map_of (tables ?W1) ''migrations'' = Some t" "''id'' \<in> set (field_names t)"
    using fresh_migrations_columns [of ?h]
    by (auto simp: runMigrations_tables empty_world_def)
  have fin: "ConsoleLog MigrationsCheckComplete
           \<in> set (new_events ?W1 (runMigrationsWith no_failures (migrations ?h2) ?W1))"
    using t by (rule runMigrationsWith_completes)
  note again = recorded_once_and_never_rerun
    [where m = ?m11 and ms' = "migrations ?h2" and w' = ?W1 and fails' = no_failures,
     THEN conjunct2, THEN conjunct2, THEN conjunct2, THEN conjunct2, THEN conjunct2, rule_format,
     OF conjI [OF migration_11_member conjI [OF pend fin] ] ]
  have f: "\<exists>pre out post.
         new_events ?W1 (runMigrations no_failures (Integer 10) ''Xk3vU0pLq1dW8sTzR5yB2e'' ?W1)
         = pre @ attempt ?m11 out @ post"
    using again unfolding runMigrations_def .
  define w2 where "w2 = snd (query ?f (sql ?m) (console_log (RunningMigration (mid ?m)) ?w))"
  define w3 where "w3 = snd (query ?f [recordMigration (mid ?m)] w2)"
  have "fst (query ?f (sql ?m) (console_log (RunningMigration (mid ?m)) ?w)) = Inr []"
    by (simp add: query_fst configRow_def unknown_fields_def field_names_def duplicate_key_def)
  then have q15: "query ?f (sql ?m) (console_log (RunningMigration (mid ?m)) ?w) = (Inr [], w2)"
    unfolding w2_def by (simp add: prod_eq_iff)
  have "length (trace w2) = 2"
    unfolding w2_def by (simp add: query_trace)
  then have "fst (query ?f [recordMigration (mid ?m)] w2) = Inl ER_OTHER"
    by (simp add: query_fst)
  then have r15: "query ?f [recordMigration (mid ?m)] w2 = (Inl ER_OTHER, w3)"
    unfolding w3_def by (simp add: prod_eq_iff)
  have p15: "Num (mid ?m) \<notin> {}" by simp
  note lost = recorded_once_and_never_rerun
    [where w = ?w and m = ?m and h = ?h and fails = ?f and S = "{}"
       and rs = "[]" and ?w2.0 = w2 and ?err2.0 = ER_OTHER and ?w3.0 = w3,
     THEN conjunct2, THEN conjunct2, THEN conjunct2, THEN conjunct2, THEN conjunct1, rule_format,
     OF conjI [OF mem conjI [OF p15 conjI [OF q15 r15] ] ] ]
  have g: "new_events ?w (runMigration ?f {} ?m ?w)
             = [ConsoleLog (RunningMigration 15),
                Query [InsertIgnore ''app_config'' (configRow ''is2faEnabled'' (Str ''false''))],
                Query [InsertInto ''migrations'' [(''id'', Num 15)] ],
                ConsoleError (MigrationFailedId 15 ER_OTHER)]"
    using lost [THEN conjunct1] by (simp add: recordMigration_def)
  have i: "applied_ids (runMigration ?f {} ?m ?w) = {}"
    using lost [THEN conjunct2] by (simp add: applied_ids_def table_rows_def rows_in_def)
  show ?thesis
    using a c b pend d e f g i by (simp del: attempt.simps)
qed

subsection \<open>Repairs settle\<close>

text \<open>
  An ADD COLUMN repair has nothing to do when the table is missing or has the column;
  a MODIFY COLUMN repair changes nothing when the table is missing or every column of
  that name already has the definition.
\<close>

lemma tolerant_add:
  "tolerant (AlterAddColumn t c d) db =
     (case map_of db t of
        None \<Rightarrow> db
      | Some tb \<Rightarrow> if c \<in> set (field_names tb) then db
                   else AList.update t (tb\<lparr>columns := columns tb @ [(c, d)]\<rparr>) db)"
  by (simp add: tolerant_def split: option.splits)

lemma tolerant_modify:
  "tolerant (AlterModifyColumn t c d) db =
     (case map_of db t of
        None \<Rightarrow> db
      | Some tb \<Rightarrow> if c \<in> set (field_names tb)
                   then AList.update t (tb\<lparr>columns := modify_column c d (columns tb)\<rparr>) db
                   else db)"
  by (simp add: tolerant_def split: option.splits)

lemma field_names_modify [simp]:
  "field_names (tb\<lparr>columns := modify_column c d (columns tb)\<rparr>) = field_names tb"
  by (auto simp: field_names_def modify_column_def)

lemma modify_column_settled:
  "list_all (\<lambda>(f, x). f \<noteq> c \<or> x = d) cols \<Longrightarrow> modify_column c d cols = cols"
  unfolding modify_column_def by (induction cols) auto

lemma modify_column_other:
  assumes "(f, x) \<in> set (modify_column c' d' cols)" and "f \<noteq> c'"
  shows "(f, x) \<in> set cols"
  using assms unfolding modify_column_def by (auto split: if_splits)

lemma modify_column_same:
  assumes "(f, x) \<in> set (modify_column c d cols)" and "f = c"
  shows "x = d"
  using assms unfolding modify_column_def by (auto split: if_splits)

lemma add_settled: "has_column t c db \<Longrightarrow> tolerant (AlterAddColumn t c d) db = db"
  by (auto simp: has_column_def tolerant_add split: option.splits)

lemma add_settles: "has_column t c (tolerant (AlterAddColumn t c d) db)"
  by (auto simp: has_column_def tolerant_add update_conv' field_names_def split: option.splits)

lemma add_keeps_column:
  "has_column t c db \<Longrightarrow> has_column t c (tolerant (AlterAddColumn t' c' d') db)"
  by (auto simp: has_column_def tolerant_add update_conv' field_names_def split: option.splits)

lemma modify_keeps_column:
  "has_column t c db \<Longrightarrow> has_column t c (tolerant (AlterModifyColumn t' c' d') db)"
  by (auto simp: has_column_def tolerant_modify update_conv' split: option.splits)

lemma modify_settled:
  assumes "has_definition t c d db"
  shows "tolerant (AlterModifyColumn t c d) db = db"
proof (cases "map_of db t")
  case None
  then show ?thesis by (simp add: tolerant_modify)
next
  case (Some tb)
  have "modify_column c d (columns tb) = columns tb"
    using assms Some by (intro modify_column_settled) (simp add: has_definition_def)
  then have "tb\<lparr>columns := modify_column c d (columns tb)\<rparr> = tb"
    by simp
  then show ?thesis
    using Some by (simp add: tolerant_modify update_triv)
qed

lemma modify_settles: "has_definition t c d (tolerant (AlterModifyColumn t c d) db)"
proof (cases "map_of db t")
  case None
  then show ?thesis by (simp add: has_definition_def tolerant_modify)
next
  case (Some tb)
  show ?thesis
  proof (cases "c \<in> set (field_names tb)")
    case True
    have "list_all (\<lambda>(f, x). f \<noteq> c \<or> x = d) (modify_column c d (columns tb))"
      by (auto simp: list_all_iff dest: modify_column_same)
    with Some True show ?thesis
      by (simp add: has_definition_def tolerant_modify update_conv')
  next
    case False
    then have "list_all (\<lambda>(f, x). f \<noteq> c \<or> x = d) (columns tb)"
      by (force simp: list_all_iff field_names_def)
    with Some False show ?thesis
      by (simp add: has_definition_def tolerant_modify)
  qed
qed

lemma modify_keeps_definition:
  assumes "has_definition t c d db" and "t' \<noteq> t \<or> c' \<noteq> c"
  shows "has_definition t c d (tolerant (AlterModifyColumn t' c' d') db)"
proof (cases "map_of db t'")
  case None
  with assms(1) show ?thesis by (simp add: tolerant_modify)
next
  case (Some tb')
  show ?thesis
  proof (cases "c' \<in> set (field_names tb')")
    case False
    with Some assms(1) show ?thesis by (simp add: tolerant_modify)
  next
    case True
    show ?thesis
    proof (cases "t' = t")
      case False
      with Some True assms(1) show ?thesis
        by (simp add: has_definition_def tolerant_modify update_conv')
    next
      case same: True
      then have ne: "c' \<noteq> c" using assms(2) by simp
      have old: "list_all (\<lambda>(f, x). f \<noteq> c \<or> x = d) (columns tb')"
        using assms(1) Some same by (simp add: has_definition_def)
      have "list_all (\<lambda>(f, x). f \<noteq> c \<or> x = d) (modify_column c' d' (columns tb'))"
        unfolding list_all_iff
      proof (intro ballI)
        fix p assume p: "p \<in> set (modify_column c' d' (columns tb'))"
        obtain f x where fx: "p = (f, x)" by (cases p)
        show "case p of (f, x) \<Rightarrow> f \<noteq> c \<or> x = d"
        proof (cases "f = c")
          case False
          then show ?thesis by (simp add: fx)
        next
          case True
          then have "(f, x) \<in> set (columns tb')"
            using p fx ne modify_column_other by blast
          then show ?thesis
            using old True by (auto simp: fx list_all_iff)
        qed
      qed
      with Some True same show ?thesis
        by (simp add: has_definition_def tolerant_modify update_conv')
    qed
  qed
qed

lemma adds_keep_column:
  "has_column t c db \<Longrightarrow>
   has_column t c (foldl (\<lambda>db s. tolerant s db) db (map (\<lambda>(t, c, d). AlterAddColumn t c d) rules))"
  by (induction rules arbitrary: db) (auto simp: add_keeps_column)

lemma adds_settle:
  "list_all (\<lambda>(t, c, d). has_column t c
       (foldl (\<lambda>db s. tolerant s db) db (map (\<lambda>(t, c, d). AlterAddColumn t c d) rules))) rules"
proof (induction rules arbitrary: db)
  case Nil
  show ?case by simp
next
  case (Cons r rules)
  obtain t c d where r: "r = (t, c, d)" by (cases r)
  have "has_column t c (foldl (\<lambda>db s. tolerant s db) (tolerant (AlterAddColumn t c d) db)
          (map (\<lambda>(t, c, d). AlterAddColumn t c d) rules))"
    by (intro adds_keep_column add_settles)
  then show ?case
    unfolding r using Cons.IH [of "tolerant (AlterAddColumn t c d) db"] by simp
qed

lemma adds_settled:
  "list_all (\<lambda>(t, c, d). has_column t c db) rules \<Longrightarrow>
   foldl (\<lambda>db s. tolerant s db) db (map (\<lambda>(t, c, d). AlterAddColumn t c d) rules) = db"
  by (induction rules) (auto simp: add_settled)

lemma repairEffect_unfold:
  "repairEffect db =
     tolerant (AlterModifyColumn ''audit_log'' ''timestamp'' ''DATETIME DEFAULT CURRENT_TIMESTAMP'')
       (tolerant (AlterModifyColumn ''equipment_history'' ''timestamp'' ''DATETIME DEFAULT CURRENT_TIMESTAMP'')
          (tolerant (AlterModifyColumn ''equipment_history'' ''equipmentId'' ''INT NULL'')
             (foldl (\<lambda>db s. tolerant s db) db
                (map (\<lambda>(t, c, d). AlterAddColumn t c d) repairRules))))"
  by (simp add: repairEffect_def repairStatements_def)

lemma repairEffect_idem: "repairEffect (repairEffect db) = repairEffect db"
proof -
  let ?m1 = "AlterModifyColumn ''equipment_history'' ''equipmentId'' ''INT NULL''"
  let ?m2 = "AlterModifyColumn ''equipment_history'' ''timestamp'' ''DATETIME DEFAULT CURRENT_TIMESTAMP''"
  let ?m3 = "AlterModifyColumn ''audit_log'' ''timestamp'' ''DATETIME DEFAULT CURRENT_TIMESTAMP''"
  let ?A = "foldl (\<lambda>db s. tolerant s db) db (map (\<lambda>(t, c, d). AlterAddColumn t c d) repairRules)"
  let ?D = "repairEffect db"
  have D: "?D = tolerant ?m3 (tolerant ?m2 (tolerant ?m1 ?A))"
    by (rule repairEffect_unfold)
  have "list_all (\<lambda>(t, c, d). has_column t c ?A) repairRules"
    by (rule adds_settle)
  then have cols: "list_all (\<lambda>(t, c, d). has_column t c ?D) repairRules"
    unfolding D by (auto simp: list_all_iff intro!: modify_keeps_column)
  have d1: "has_definition ''equipment_history'' ''equipmentId'' ''INT NULL'' ?D"
    unfolding D by (intro modify_keeps_definition modify_settles) simp_all
  have d2: "has_definition ''equipment_history'' ''timestamp'' ''DATETIME DEFAULT CURRENT_TIMESTAMP'' ?D"
    unfolding D by (intro modify_keeps_definition modify_settles) simp_all
  have d3: "has_definition ''audit_log'' ''timestamp'' ''DATETIME DEFAULT CURRENT_TIMESTAMP'' ?D"
    unfolding D by (rule modify_settles)
  have "repairEffect ?D = tolerant ?m3 (tolerant ?m2 (tolerant ?m1
          (foldl (\<lambda>db s. tolerant s db) ?D (map (\<lambda>(t, c, d). AlterAddColumn t c d) repairRules))))"
    by (rule repairEffect_unfold)
  also have "\<dots> = tolerant ?m3 (tolerant ?m2 (tolerant ?m1 ?D))"
    using cols by (simp only: adds_settled)
  also have "\<dots> = ?D"
    using d1 d2 d3 by (simp only: modify_settled)
  finally show ?thesis .
qed

lemma repairEffect_funpow: "(repairEffect ^^ Suc n) db = repairEffect db"
  by (induction n) (simp_all add: repairEffect_idem)

lemma ensureCriticalSchema_funpow:
  "tables ((ensureCriticalSchema no_failures ^^ n) w) = (repairEffect ^^ n) (tables w)"
  by (induction n) (simp_all add: ensureCriticalSchema_tables)

lemma tolerant_add_idem:
  "tolerant (AlterAddColumn t c d) (tolerant (AlterAddColumn t c d) db)
     = tolerant (AlterAddColumn t c d) db"
  by (intro add_settled add_settles)

lemma tolerant_modify_idem:
  "tolerant (AlterModifyColumn t c d) (tolerant (AlterModifyColumn t c d) db)
     = tolerant (AlterModifyColumn t c d) db"
  by (intro modify_settled modify_settles)

text \<open>Whatever fails, a settled repair changes nothing.\<close>

lemma query_tolerant:
  assumes "query fails [s] w = (r, w1)"
  shows "tables w1 = tables w \<or> tables w1 = tolerant s (tables w)"
  using queryE(2) [OF assms] by (auto simp: tolerant_def split: sum.splits)

lemma tolerant_show [simp]:
  "tolerant (ShowTablesLike p) db = db"
  "tolerant (ShowColumnsFrom n) db = db"
  "tolerant (ShowColumnsFromLike n p) db = db"
  by (simp_all add: tolerant_def split: option.splits)

lemma checkAndAddColumn_settled:
  assumes "has_column t c (tables w)"
  shows "tables (checkAndAddColumn fails t c d w) = tables w"
proof -
  have alter: "tables w3 = tables w0"
    if "query fails [AlterAddColumn t c d] w0 = (r, w3)" "tables w0 = tables w" for w0 r w3
    using query_tolerant [OF that(1)] that(2) add_settled [OF assms, of d] by auto
  show ?thesis
    unfolding checkAndAddColumn_def Let_def
    by (auto split: prod.splits sum.splits
             dest!: query_tolerant [where s = "ShowTablesLike t"]
                    query_tolerant [where s = "ShowColumnsFrom t"]
             dest: alter)
qed

lemma modifyIfPresent_settled:
  assumes "has_definition t c d (tables w)"
  shows "tables (modifyIfPresent fails t c d note warning w) = tables w"
proof -
  have alter: "tables w2 = tables w0"
    if "query fails [AlterModifyColumn t c d] w0 = (r, w2)" "tables w0 = tables w" for w0 r w2
    using query_tolerant [OF that(1)] that(2) modify_settled [OF assms] by auto
  show ?thesis
    unfolding modifyIfPresent_def
    by (auto split: prod.splits sum.splits
             dest!: query_tolerant [where s = "ShowColumnsFromLike t c"]
             dest: alter)
qed

lemma checkAndAddColumns_settled:
  "list_all (\<lambda>(t, c, d). has_column t c (tables w)) rules \<Longrightarrow>
   tables (checkAndAddColumns fails rules w) = tables w"
proof (induction rules arbitrary: w)
  case Nil
  show ?case by simp
next
  case (Cons r rules)
  obtain t c d where r: "r = (t, c, d)" by (cases r)
  have 1: "tables (checkAndAddColumn fails t c d w) = tables w"
    using Cons.prems by (intro checkAndAddColumn_settled) (simp add: r)
  then have "tables (checkAndAddColumns fails rules (checkAndAddColumn fails t c d w))
               = tables (checkAndAddColumn fails t c d w)"
    using Cons.prems by (intro Cons.IH) simp
  with 1 show ?case by (simp add: r)
qed

lemma ensureCriticalSchema_settled:
  "tables (ensureCriticalSchema fails (ensureCriticalSchema no_failures w))
     = tables (ensureCriticalSchema no_failures w)"
proof -
  let ?m1 = "AlterModifyColumn ''equipment_history'' ''equipmentId'' ''INT NULL''"
  let ?m2 = "AlterModifyColumn ''equipment_history'' ''timestamp'' ''DATETIME DEFAULT CURRENT_TIMESTAMP''"
  let ?m3 = "AlterModifyColumn ''audit_log'' ''timestamp'' ''DATETIME DEFAULT CURRENT_TIMESTAMP''"
  let ?A = "foldl (\<lambda>db s. tolerant s db) (tables w) (map (\<lambda>(t, c, d). AlterAddColumn t c d) repairRules)"
  let ?W = "ensureCriticalSchema no_failures w"
  have D: "tables ?W = tolerant ?m3 (tolerant ?m2 (tolerant ?m1 ?A))"
    by (simp add: ensureCriticalSchema_tables repairEffect_unfold)
  have "list_all (\<lambda>(t, c, d). has_column t c ?A) repairRules"
    by (rule adds_settle)
  then have cols: "list_all (\<lambda>(t, c, d). has_column t c (tables ?W)) repairRules"
    unfolding D by (auto simp: list_all_iff intro!: modify_keeps_column)
  have d1: "has_definition ''equipment_history'' ''equipmentId'' ''INT NULL'' (tables ?W)"
    unfolding D by (intro modify_keeps_definition modify_settles) simp_all
  have d2: "has_definition ''equipment_history'' ''timestamp'' ''DATETIME DEFAULT CURRENT_TIMESTAMP'' (tables ?W)"
    unfolding D by (intro modify_keeps_definition modify_settles) simp_all
  have d3: "has_definition ''audit_log'' ''timestamp'' ''DATETIME DEFAULT CURRENT_TIMESTAMP'' (tables ?W)"
    unfolding D by (rule modify_settles)
  let ?w0 = "console_log RunningCriticalSchemaCheck ?W"
  let ?w1 = "checkAndAddColumns fails repairRules ?w0"
  let ?w2 = "modifyIfPresent fails ''equipment_history'' ''equipmentId'' ''INT NULL''
               AutoRepairEquipmentIdNullable AutoRepairWarningEquipmentId ?w1"
  let ?w3 = "modifyIfPresent fails ''equipment_history'' ''timestamp''
               ''DATETIME DEFAULT CURRENT_TIMESTAMP''
               AutoRepairTimestampDefault AutoRepairWarningTimestamp ?w2"
  let ?w4 = "modifyIfPresent fails ''audit_log'' ''timestamp''
               ''DATETIME DEFAULT CURRENT_TIMESTAMP''
               AutoRepairAuditLogTimestampDefault AutoRepairWarningAuditLogTimestamp ?w3"
  have 1: "tables ?w1 = tables ?W"
    using cols checkAndAddColumns_settled [of ?w0 repairRules fails] by simp
  have 2: "tables ?w2 = tables ?W"
    using d1 1 modifyIfPresent_settled [of "''equipment_history''" "''equipmentId''" "''INT NULL''" ?w1]
    by simp
  have 3: "tables ?w3 = tables ?W"
    using d2 2 modifyIfPresent_settled [of "''equipment_history''" "''timestamp''" _ ?w2]
    by simp
  have 4: "tables ?w4 = tables ?W"
    using d3 3 modifyIfPresent_settled [of "''audit_log''" "''timestamp''" _ ?w3]
    by simp
  have "ensureCriticalSchema fails ?W = console_log CriticalSchemaCheckComplete ?w4"
    by (simp add: ensureCriticalSchema_def Let_def)
  with 4 show ?thesis by simp
qed

text \<open>
  C9. After a repair pass in which no query failed for an outside reason, a second pass
  leaves every table (schema and rows) exactly as the first left it, whatever fails in
  the second; so does any number of further passes; and so does each generic rule and
  each targeted repair on its own.
\<close>

theorem repair_pass_is_idempotent:
  "tables (ensureCriticalSchema fails (ensureCriticalSchema no_failures w))
     = tables (ensureCriticalSchema no_failures w)
   \<and> tables ((ensureCriticalSchema no_failures ^^ Suc n) w)
     = tables (ensureCriticalSchema no_failures w)
   \<and> tables (checkAndAddColumn no_failures t c d (checkAndAddColumn no_failures t c d w))
     = tables (checkAndAddColumn no_failures t c d w)
   \<and> tables (modifyIfPresent no_failures t c d note warning
               (modifyIfPresent no_failures t c d note warning w))
     = tables (modifyIfPresent no_failures t c d note warning w)"
proof -
  have "tables ((ensureCriticalSchema no_failures ^^ Suc n) w)
          = tables (ensureCriticalSchema no_failures w)"
    unfolding ensureCriticalSchema_funpow repairEffect_funpow
    by (simp add: ensureCriticalSchema_tables)
  then show ?thesis
    by (simp add: ensureCriticalSchema_settled checkAndAddColumn_tables
          modifyIfPresent_tables tolerant_add_idem tolerant_modify_idem del: funpow.simps)
qed

subsection \<open>One generic repair rule\<close>

text \<open>
  What \<^verbatim>\<open>checkAndAddColumn\<close> does when no query fails for an outside reason, case by case:
  no table name matches the pattern; a name matches but the table itself is missing;
  the table has the column; the table lacks the column.
\<close>

lemma checkAndAddColumn_no_failures:
  "checkAndAddColumn no_failures t c d w =
     (if filter (like t) (map fst (tables w)) = []
      then w\<lparr>trace := trace w @ [Query [ShowTablesLike t] ]\<rparr>
      else
        (case map_of (tables w) t of
           None \<Rightarrow>
             w\<lparr>trace := trace w @
                  [Query [ShowTablesLike t], Query [ShowColumnsFrom t],
                   ConsoleError (ErrorCheckingColumn c t (ER_NO_SUCH_TABLE t))]\<rparr>
         | Some tb \<Rightarrow>
             if c \<in> set (field_names tb)
             then w\<lparr>trace := trace w @ [Query [ShowTablesLike t], Query [ShowColumnsFrom t] ]\<rparr>
             else \<lparr>tables = AList.update t (tb\<lparr>columns := columns tb @ [(c, d)]\<rparr>) (tables w),
                   trace = trace w @
                     [Query [ShowTablesLike t], Query [ShowColumnsFrom t],
                      ConsoleLog (AutoRepairAdding c t), Query [AlterAddColumn t c d] ]\<rparr>))"
proof (cases "filter (like t) (map fst (tables w)) = []")
  case True
  then show ?thesis
    by (simp add: checkAndAddColumn_def query_no_failures)
next
  case False
  then have F: "filter (like t \<circ> fst) (tables w) \<noteq> []"
    by (simp add: filter_map)
  show ?thesis
  proof (cases "map_of (tables w) t")
    case None
    with False F show ?thesis
      by (simp add: checkAndAddColumn_def query_no_failures console_error_def)
  next
    case (Some tb)
    with False F show ?thesis
      by (simp add: checkAndAddColumn_def query_no_failures Let_def console_log_def
            shown_field_member field_names_def)
  qed
qed

text \<open>
  Whatever fails, a generic rule returns, and its events are one of six sequences: each
  query that raises is followed at once by the error line, and by nothing else.
\<close>

lemma checkAndAddColumn_events:
  "\<exists>e. new_events w (checkAndAddColumn fails t c d w) \<in>
     {[Query [ShowTablesLike t], ConsoleError (ErrorCheckingColumn c t e)],
      [Query [ShowTablesLike t]],
      [Query [ShowTablesLike t], Query [ShowColumnsFrom t],
       ConsoleError (ErrorCheckingColumn c t e)],
      [Query [ShowTablesLike t], Query [ShowColumnsFrom t]],
      [Query [ShowTablesLike t], Query [ShowColumnsFrom t],
       ConsoleLog (AutoRepairAdding c t), Query [AlterAddColumn t c d],
       ConsoleError (ErrorCheckingColumn c t e)],
      [Query [ShowTablesLike t], Query [ShowColumnsFrom t],
       ConsoleLog (AutoRepairAdding c t), Query [AlterAddColumn t c d]]}"
proof -
  obtain r1 w1 where q1: "query fails [ShowTablesLike t] w = (r1, w1)"
    by (cases "query fails [ShowTablesLike t] w")
  obtain r2 w2 where q2: "query fails [ShowColumnsFrom t] w1 = (r2, w2)"
    by (cases "query fails [ShowColumnsFrom t] w1")
  obtain r3 w3 where q3: "query fails [AlterAddColumn t c d]
                            (console_log (AutoRepairAdding c t) w2) = (r3, w3)"
    by (cases "query fails [AlterAddColumn t c d] (console_log (AutoRepairAdding c t) w2)")
  have t1: "trace w1 = trace w @ [Query [ShowTablesLike t]]"
    using queryE(1) [OF q1] .
  have t2: "trace w2 = trace w @ [Query [ShowTablesLike t], Query [ShowColumnsFrom t]]"
    using queryE(1) [OF q2] t1 by simp
  have t3: "trace w3 = trace w @ [Query [ShowTablesLike t], Query [ShowColumnsFrom t],
                                   ConsoleLog (AutoRepairAdding c t), Query [AlterAddColumn t c d]]"
    using queryE(1) [OF q3] t2 by simp
  show ?thesis
    unfolding new_events_def checkAndAddColumn_def Let_def q1 
    by (cases r1; cases r2; cases r3) (auto simp: q2 q3 t1 t2 t3)
qed

text \<open>
  C6. The rule for \<open>equipment_history\<close> is not skipped silently when that table is missing
  but another table's name matches it as a LIKE pattern (the underscore stands for any
  one character): the existence probe returns a row, the column probe raises, and the
  rule prints an error. Nothing is created and the database is unchanged.
\<close>

theorem missing_table_is_not_always_silent:
  "map_of (tables
      \<lparr>tables = [(''equipmentXhistory'',
                   \<lparr>columns = [(''id'', ''INT'')], uniques = [''id''], rows = []\<rparr>)],
       trace = []\<rparr>) ''equipment_history'' = None
   \<and> checkAndAddColumn no_failures ''equipment_history'' ''equipment_id'' ''INT''
      \<lparr>tables = [(''equipmentXhistory'',
                   \<lparr>columns = [(''id'', ''INT'')], uniques = [''id''], rows = []\<rparr>)],
       trace = []\<rparr>
     = \<lparr>tables = [(''equipmentXhistory'',
                     \<lparr>columns = [(''id'', ''INT'')], uniques = [''id''], rows = []\<rparr>)],
         trace = [Query [ShowTablesLike ''equipment_history''],
                  Query [ShowColumnsFrom ''equipment_history''],
                  ConsoleError (ErrorCheckingColumn ''equipment_id'' ''equipment_history''
                                  (ER_NO_SUCH_TABLE ''equipment_history''))]\<rparr>"
  by (simp add: checkAndAddColumn_no_failures)

subsection \<open>The hash of the seeded password\<close>











subsection \<open>Seeding the administrative account\<close>

lemma declares_users_keys:
  "declares_keys (migrations h) ''users'' keys = (keys = [''id'', ''username'', ''email''])"
  by (auto simp: declares_keys_def migrations_def)

lemma users_as_declared_keyed: "users_as_declared (migrations h) db = users_keyed db"
  by (simp add: users_as_declared_def users_keyed_def declares_users_keys split: option.splits)

lemma migrations_seed_only:
  "list_all (\<lambda>m. list_all (seeds_only h) (sql m)) (migrations h)"
  by (simp add: migrations_def)

lemma seeded_adminRow: "seeded_account (adminRow h)"
  by (simp add: seeded_account_def adminRow_def cell_def)

lemma duplicate_seed:
  assumes "uniques t = [''id'', ''username'', ''email'']"
  shows "duplicate_key t (adminRow h) = list_ex seeded_account (rows t)"
  by (auto simp: duplicate_key_def assms adminRow_def cell_def list_ex_iff seeded_account_def)

lemma seed_step_refl: "users_keyed db \<Longrightarrow> seed_step h db db"
  by (simp add: seed_step_def)

lemma seed_step_trans:
  assumes "seed_step h db db'" and "seed_step h db' db''"
  shows "seed_step h db db''"
proof -
  have k: "users_keyed db''"
    using assms(2) by (simp add: seed_step_def)
  consider "rows_in db' ''users'' = rows_in db ''users''"
    | "list_all (\<lambda>r. \<not> seeded_account r) (rows_in db ''users'')"
      "rows_in db' ''users'' = rows_in db ''users'' @ [adminRow h]"
    using assms(1) by (auto simp: seed_step_def)
  then show ?thesis
  proof cases
    case 1
    then show ?thesis
      using assms(2) by (simp add: seed_step_def)
  next
    case 2
    have "\<not> list_all (\<lambda>r. \<not> seeded_account r) (rows_in db' ''users'')"
      using 2(2) seeded_adminRow by simp
    then have "rows_in db'' ''users'' = rows_in db' ''users''"
      using assms(2) by (auto simp: seed_step_def)
    then show ?thesis
      using 2 k by (simp add: seed_step_def)
  qed
qed

lemma seed_step_cong:
  assumes "map_option uniques (map_of db' ''users'') = map_option uniques (map_of db ''users'')"
    and "rows_in db' ''users'' = rows_in db ''users''"
    and "users_keyed db"
  shows "seed_step h db db'"
proof -
  have "users_keyed db'"
    using assms(1,3) by (auto simp: users_keyed_def split: option.splits)
  then show ?thesis
    using assms(2) by (simp add: seed_step_def)
qed

lemma exec_seed:
  assumes "exec (InsertIgnore ''users'' (adminRow h)) db = Inr (rs, db')" and "users_keyed db"
  shows "seed_step h db db'"
proof (cases "map_of db ''users''")
  case None
  then show ?thesis using assms(1) by simp
next
  case (Some t)
  have u: "uniques t = [''id'', ''username'', ''email'']"
    using assms(2) Some by (simp add: users_keyed_def)
  have nf: "unknown_fields t (adminRow h) = []"
    using assms(1) Some by (cases "unknown_fields t (adminRow h)") simp_all
  show ?thesis
  proof (cases "duplicate_key t (adminRow h)")
    case True
    then have "db' = db"
      using assms(1) Some nf by simp
    then show ?thesis
      using assms(2) by (simp add: seed_step_refl)
  next
    case False
    then have db': "db' = AList.update ''users'' (t\<lparr>rows := rows t @ [adminRow h]\<rparr>) db"
      using assms(1) Some nf by simp
    have "list_all (\<lambda>r. \<not> seeded_account r) (rows t)"
      using False duplicate_seed [OF u, of h] by (simp add: list_all_iff list_ex_iff)
    then show ?thesis
      using u Some
      by (simp add: seed_step_def db' users_keyed_def update_conv' rows_in_update rows_in_Some)
  qed
qed

lemma exec_seeds_only:
  assumes "exec s db = Inr (rs, db')" and "users_keyed db" and "seeds_only h s"
  shows "seed_step h db db'"
proof (cases "s = InsertIgnore ''users'' (adminRow h)")
  case True
  then show ?thesis
    using assms(1,2) exec_seed by blast
next
  case False
  have "map_option uniques (map_of db' ''users'') = map_option uniques (map_of db ''users'')
          \<and> rows_in db' ''users'' = rows_in db ''users''
        \<or> map_of db ''users'' = None \<and>
          (\<exists>t. map_of db' ''users'' = Some t \<and> uniques t = [''id'', ''username'', ''email'']
                \<and> rows t = [])"
    using assms(1,3) False
    by (cases s)
       (auto simp: update_conv' rows_in_update rows_in_def
             split: option.splits list.splits if_splits)
  then show ?thesis
  proof
    assume "map_option uniques (map_of db' ''users'') = map_option uniques (map_of db ''users'')
          \<and> rows_in db' ''users'' = rows_in db ''users''"
    then show ?thesis
      using assms(2) by (simp add: seed_step_cong)
  next
    assume "map_of db ''users'' = None \<and>
          (\<exists>t. map_of db' ''users'' = Some t \<and> uniques t = [''id'', ''username'', ''email'']
                \<and> rows t = [])"
    then show ?thesis
      by (auto simp: seed_step_def users_keyed_def rows_in_def)
  qed
qed

lemma exec_all_seeds_only:
  "users_keyed db \<Longrightarrow> list_all (seeds_only h) ss \<Longrightarrow> seed_step h db (snd (exec_all ss rs db))"
proof (induction ss arbitrary: rs db)
  case Nil
  then show ?case by (simp add: seed_step_refl)
next
  case (Cons s ss)
  show ?case
  proof (cases "exec s db")
    case (Inl e)
    then show ?thesis using Cons.prems by (simp add: seed_step_refl)
  next
    case (Inr p)
    obtain rs' db' where p: "p = (rs', db')" by (cases p)
    have 1: "seed_step h db db'"
      using Inr p Cons.prems exec_seeds_only by auto
    then have "users_keyed db'" by (simp add: seed_step_def)
    then have "seed_step h db' (snd (exec_all ss rs' db'))"
      using Cons.IH Cons.prems by simp
    with 1 have "seed_step h db (snd (exec_all ss rs' db'))"
      by (rule seed_step_trans)
    then show ?thesis
      using Inr p by simp
  qed
qed

lemma query_seeds_only:
  assumes "query fails sqls w0 = (r, w1)" and "seed_step h db (tables w0)"
    and "list_all (seeds_only h) sqls"
  shows "seed_step h db (tables w1)"
proof -
  have k: "users_keyed (tables w0)"
    using assms(2) by (simp add: seed_step_def)
  have "seed_step h (tables w0) (tables w1)"
    using queryE(2) [OF assms(1)] k assms(3)
    by (simp add: seed_step_refl exec_all_seeds_only)
  with assms(2) show ?thesis by (rule seed_step_trans)
qed

lemma checkAndAddColumn_seed:
  assumes "seed_step h db (tables w)"
  shows "seed_step h db (tables (checkAndAddColumn fails t c d w))"
proof -
  have r: "list_all (seeds_only h) [ShowTablesLike t]" "list_all (seeds_only h) [ShowColumnsFrom t]"
    "list_all (seeds_only h) [AlterAddColumn t c d]"
    by simp_all
  show ?thesis
    using assms unfolding checkAndAddColumn_def Let_def
    by (auto split: prod.splits sum.splits
             dest!: query_seeds_only [OF _ _ r(1), of _ _ _ _ db]
                    query_seeds_only [OF _ _ r(2), of _ _ _ _ db]
                    query_seeds_only [OF _ _ r(3), of _ _ _ _ db])
qed

lemma modifyIfPresent_seed:
  assumes "seed_step h db (tables w)"
  shows "seed_step h db (tables (modifyIfPresent fails t c d note warning w))"
proof -
  have r: "list_all (seeds_only h) [ShowColumnsFromLike t c]"
    "list_all (seeds_only h) [AlterModifyColumn t c d]"
    by simp_all
  show ?thesis
    using assms unfolding modifyIfPresent_def
    by (auto split: prod.splits sum.splits
             dest!: query_seeds_only [OF _ _ r(1), of _ _ _ _ db]
                    query_seeds_only [OF _ _ r(2), of _ _ _ _ db])
qed

lemma checkAndAddColumns_seed:
  "seed_step h db (tables w) \<Longrightarrow> seed_step h db (tables (checkAndAddColumns fails rules w))"
  by (induction fails rules w rule: checkAndAddColumns.induct)
     (simp_all add: checkAndAddColumn_seed)

lemma ensureCriticalSchema_seed:
  "seed_step h db (tables w) \<Longrightarrow> seed_step h db (tables (ensureCriticalSchema fails w))"
  by (simp add: ensureCriticalSchema_def Let_def modifyIfPresent_seed checkAndAddColumns_seed)

lemma runMigration_seed:
  assumes "seed_step h db (tables w)" and "list_all (seeds_only h) (sql m)"
  shows "seed_step h db (tables (runMigration fails S m w))"
proof (cases "Num (mid m) \<in> S")
  case True
  then show ?thesis
    using assms(1) by (simp add: runMigration_def)
next
  case False
  let ?w0 = "console_log (RunningMigration (mid m)) w"
  obtain r1 w1 where q1: "query fails (sql m) ?w0 = (r1, w1)" by (cases "query fails (sql m) ?w0")
  obtain r2 w2 where q2: "query fails [recordMigration (mid m)] w1 = (r2, w2)"
    by (cases "query fails [recordMigration (mid m)] w1")
  have s1: "seed_step h db (tables w1)"
    using q1 _ assms(2) by (rule query_seeds_only) (simp add: assms(1))
  have "list_all (seeds_only h) [recordMigration (mid m)]"
    by (simp add: recordMigration_def)
  with q2 s1 have s2: "seed_step h db (tables w2)"
    by (rule query_seeds_only)
  show ?thesis
    using False q1 q2 s1 s2 by (auto simp: runMigration_def split: sum.splits)
qed

lemma runPending_seed:
  "seed_step h db (tables w) \<Longrightarrow> list_all (\<lambda>m. list_all (seeds_only h) (sql m)) ms \<Longrightarrow>
     seed_step h db (tables (runPending fails S ms w))"
  by (induction ms arbitrary: w) (simp_all add: runMigration_seed)

lemma runMigrationsWith_seed:
  assumes "users_keyed (tables w)" and "list_all (\<lambda>m. list_all (seeds_only h) (sql m)) ms"
  shows "seed_step h (tables w) (tables (runMigrationsWith fails ms w))"
proof -
  let ?db = "tables w"
  let ?w0 = "console_log CheckingDatabaseMigrations w"
  obtain r1 w1 where c: "getConnection fails ?w0 = (r1, w1)" by (cases "getConnection fails ?w0")
  obtain r2 w2 where q2: "query fails [createMigrationsTable] w1 = (r2, w2)"
    by (cases "query fails [createMigrationsTable] w1")
  obtain r3 w3 where q3: "query fails [SelectFrom ''id'' ''migrations''] w2 = (r3, w3)"
    by (cases "query fails [SelectFrom ''id'' ''migrations''] w2")
  have 1: "seed_step h ?db (tables w1)"
    using getConnection_tables [OF c] assms(1) by (simp add: seed_step_refl)
  have "list_all (seeds_only h) [createMigrationsTable]"
    by (simp add: createMigrationsTable_def)
  with q2 1 have 2: "seed_step h ?db (tables w2)"
    by (rule query_seeds_only)
  have "list_all (seeds_only h) [SelectFrom ''id'' ''migrations'']"
    by simp
  with q3 2 have 3: "seed_step h ?db (tables w3)"
    by (rule query_seeds_only)
  have 5: "seed_step h ?db (tables (runPending fails S ms (ensureCriticalSchema fails w3)))" for S
    using 3 assms(2) by (intro runPending_seed ensureCriticalSchema_seed)
  show ?thesis
    using 1 2 3 5
    by (simp add: runMigrationsWith_def Let_def c q2 q3 split: sum.splits del: set_map)
qed

lemma runMigrations_seed:
  "users_keyed (tables w) \<Longrightarrow>
     seed_step (hashSync ''marceloadmin'' k s) (tables w) (tables (runMigrations fails k s w))"
  unfolding runMigrations_def by (intro runMigrationsWith_seed migrations_seed_only)

lemma startups_seed:
  assumes "users_keyed (tables w)"
  shows "\<exists>new. table_rows ''users'' (startups runs w) = table_rows ''users'' w @ new
           \<and> (new = [] \<or>
               list_all (\<lambda>r. \<not> seeded_account r) (table_rows ''users'' w) \<and>
               (\<exists>(fails, k, s) \<in> set runs. new = [adminRow (hashSync ''marceloadmin'' k s)]))"
  using assms
proof (induction runs arbitrary: w)
  case Nil
  show ?case by simp
next
  case (Cons r runs)
  obtain fails k s where r: "r = (fails, k, s)" by (cases r)
  let ?w' = "runMigrations fails k s w"
  have step: "seed_step (hashSync ''marceloadmin'' k s) (tables w) (tables ?w')"
    using Cons.prems by (rule runMigrations_seed)
  then have "users_keyed (tables ?w')"
    by (simp add: seed_step_def)
  then obtain new where new: "table_rows ''users'' (startups runs ?w') = table_rows ''users'' ?w' @ new"
    "new = [] \<or>
       list_all (\<lambda>r. \<not> seeded_account r) (table_rows ''users'' ?w') \<and>
       (\<exists>(fails, k, s) \<in> set runs. new = [adminRow (hashSync ''marceloadmin'' k s)])"
    using Cons.IH by blast
  consider "table_rows ''users'' ?w' = table_rows ''users'' w"
    | "list_all (\<lambda>r. \<not> seeded_account r) (table_rows ''users'' w)"
      "table_rows ''users'' ?w' = table_rows ''users'' w @ [adminRow (hashSync ''marceloadmin'' k s)]"
    using step by (auto simp: seed_step_def table_rows_def)
  then show ?case
  proof cases
    case 1
    have "table_rows ''users'' (startups (r # runs) w) = table_rows ''users'' w @ new"
      using new(1) 1 by (simp add: r)
    moreover have "new = [] \<or>
       list_all (\<lambda>r. \<not> seeded_account r) (table_rows ''users'' w) \<and>
       (\<exists>(fails, k, s) \<in> set (r # runs). new = [adminRow (hashSync ''marceloadmin'' k s)])"
      using new(2) 1 by auto
    ultimately show ?thesis by blast
  next
    case 2
    have "\<not> list_all (\<lambda>r. \<not> seeded_account r) (table_rows ''users'' ?w')"
      using 2(2) seeded_adminRow by simp
    then have "new = []"
      using new(2) by blast
    then have "table_rows ''users'' (startups (r # runs) w)
                 = table_rows ''users'' w @ [adminRow (hashSync ''marceloadmin'' k s)]"
      using new(1) 2(2) by (simp add: r)
    moreover have "\<exists>(fails, k, s) \<in> set (r # runs).
                     [adminRow (hashSync ''marceloadmin'' k s)] = [adminRow (hashSync ''marceloadmin'' k s)]"
      by (auto simp: r)
    ultimately show ?thesis
      using 2(1) r by auto
  qed
qed

subsection \<open>A first start whose bookkeeping INSERT for migration 7 fails\<close>

text \<open>
  On an empty database the bookkeeping INSERT of migration 7 is the 63rd event of the
  start. When exactly that call fails, the start still gets through its loop.
\<close>

lemma interrupted_start:
  "runMigrationsWith (\<lambda>n. n = 62) ms empty_world =
     release (console_log MigrationsCheckComplete
       (runPending (\<lambda>n. n = 62) {} ms
          (ensureCriticalSchema (\<lambda>n. n = 62)
             \<lparr>tables = [(''migrations'',
                          \<lparr>columns = [(''id'', ''INT PRIMARY KEY'')], uniques = [''id''], rows = []\<rparr>)],
              trace = [ConsoleLog CheckingDatabaseMigrations, Acquire,
                       Query [createMigrationsTable], Query [SelectFrom ''id'' ''migrations''] ]\<rparr>)))"
  by (simp add: runMigrationsWith_def getConnection_def query_def Let_def console_log_def
        empty_world_def createMigrationsTable_def field_names_def)

lemma interrupted_rows:
  "map (\<lambda>(n, t). (n, rows t))
     (tables (runPending (\<lambda>n. n = 62) {} (migrations h)
          (ensureCriticalSchema (\<lambda>n. n = 62)
             \<lparr>tables = [(''migrations'',
                          \<lparr>columns = [(''id'', ''INT PRIMARY KEY'')], uniques = [''id''], rows = []\<rparr>)],
              trace = [ConsoleLog CheckingDatabaseMigrations, Acquire,
                       Query [createMigrationsTable], Query [SelectFrom ''id'' ''migrations''] ]\<rparr>))) =
     [(''migrations'', map (\<lambda>i. [(''id'', Num i)]) [1, 2, 3, 4, 5, 6, 8, 9, 10, 12, 13, 14, 15]),
      (''users'', [adminRow h]),
      (''equipment'', []),
      (''licenses'', []),
      (''equipment_history'', []),
      (''audit_log'', []),
      (''app_config'',
        [configRow ''companyName'' (Str ''MRR INFORMATICA''),
         configRow ''isSsoEnabled'' (Str ''false''),
         configRow ''termo_entrega_template'' Null,
         configRow ''termo_devolucao_template'' Null,
         configRow ''is2faEnabled'' (Str ''false'')])]"
  by code_simp

lemma interrupted_migrations_columns:
  "map_option field_names
     (map_of (tables (runPending (\<lambda>n. n = 62) {} (migrations h)
          (ensureCriticalSchema (\<lambda>n. n = 62)
             \<lparr>tables = [(''migrations'',
                          \<lparr>columns = [(''id'', ''INT PRIMARY KEY'')], uniques = [''id''], rows = []\<rparr>)],
              trace = [ConsoleLog CheckingDatabaseMigrations, Acquire,
                       Query [createMigrationsTable], Query [SelectFrom ''id'' ''migrations''] ]\<rparr>)))
        ''migrations'') = Some [''id'']"
  by code_simp

lemma resumed_rows:
  "map (\<lambda>(n, t). (n, rows t))
     (runEffect (migrations h')
       (tables (runPending (\<lambda>n. n = 62) {} (migrations h)
          (ensureCriticalSchema (\<lambda>n. n = 62)
             \<lparr>tables = [(''migrations'',
                          \<lparr>columns = [(''id'', ''INT PRIMARY KEY'')], uniques = [''id''], rows = []\<rparr>)],
              trace = [ConsoleLog CheckingDatabaseMigrations, Acquire,
                       Query [createMigrationsTable], Query [SelectFrom ''id'' ''migrations''] ]\<rparr>)))) =
     [(''migrations'', map (\<lambda>i. [(''id'', Num i)]) [1, 2, 3, 4, 5, 6, 8, 9, 10, 12, 13, 14, 15, 7]),
      (''users'', [adminRow h]),
      (''equipment'', []),
      (''licenses'', []),
      (''equipment_history'', []),
      (''audit_log'', []),
      (''app_config'',
        [configRow ''companyName'' (Str ''MRR INFORMATICA''),
         configRow ''isSsoEnabled'' (Str ''false''),
         configRow ''termo_entrega_template'' Null,
         configRow ''termo_devolucao_template'' Null,
         configRow ''is2faEnabled'' (Str ''false'')])]"
  by code_simp

lemma seed_twice_after_create:
  assumes "map_of db ''users'' = None"
  shows "\<exists>db1 db2 db3.
            exec_all (migration_sql 1 h) [] db = (Inr [], db1)
          \<and> exec_all (migration_sql 7 h1) [] db1 = (Inr [], db2)
          \<and> exec_all (migration_sql 7 h2) [] db2 = (Inr [], db3)
          \<and> rows_in db1 ''users'' = []
          \<and> rows_in db2 ''users'' = [adminRow h1]
          \<and> rows_in db3 ''users'' = [adminRow h1]"
  using assms
  by (simp add: migration_sql_def migrations_def update_conv' rows_in_def
        unknown_fields_def field_names_def duplicate_key_def adminRow_def cell_def)

lemma startups_seed_count:
  assumes "users_keyed (tables w)"
  shows "length (filter seeded_account (table_rows ''users'' (startups runs w)))
           \<le> max 1 (length (filter seeded_account (table_rows ''users'' w)))"
proof -
  obtain new where new: "table_rows ''users'' (startups runs w) = table_rows ''users'' w @ new"
    "new = [] \<or>
       list_all (\<lambda>r. \<not> seeded_account r) (table_rows ''users'' w) \<and>
       (\<exists>(fails, k, s) \<in> set runs. new = [adminRow (hashSync ''marceloadmin'' k s)])"
    using startups_seed [OF assms] by blast
  show ?thesis
  proof (cases "new = []")
    case True
    then show ?thesis using new(1) by simp
  next
    case False
    then have none: "filter seeded_account (table_rows ''users'' w) = []"
      using new(2) by (auto simp: list_all_iff filter_empty_conv)
    have "length new = 1"
      using False new(2) by auto
    then have "length (filter seeded_account new) \<le> 1"
      using length_filter_le [of seeded_account new] by simp
    then show ?thesis
      using new(1) none by simp
  qed
qed

text \<open>
  C8. Take a database in which \<open>users\<close> is missing or has the unique keys that
  migration 1 declares for it, and any sequence of startups, whatever fails in them and
  however often the seed is executed. The rows of \<open>users\<close> that were there stay as
  they are, followed by at most one new row; a row is added only when no account held
  the seeded username or email, and it is then the seed row of one of the startups; so
  the number of accounts with the seeded username or email never goes above one unless
  it already was. At the level of the statements: on a database without \<open>users\<close>,
  migration 1 followed by the seed executed twice, with whatever two hashes, succeeds
  each time and leaves exactly the row of the first execution. And after two startups
  on an empty database in which nothing fails for an outside reason the table holds
  exactly the row seeded by the first.
\<close>

theorem admin_seed_is_guarded:
  "(users_as_declared (migrations h) (tables w) \<longrightarrow>
      (\<exists>new. table_rows ''users'' (startups runs w) = table_rows ''users'' w @ new
          \<and> (new = [] \<or>
               list_all (\<lambda>r. \<not> seeded_account r) (table_rows ''users'' w) \<and>
               (\<exists>(fails, k, s) \<in> set runs. new = [adminRow (hashSync ''marceloadmin'' k s)])))
      \<and> length (filter seeded_account (table_rows ''users'' (startups runs w)))
           \<le> max 1 (length (filter seeded_account (table_rows ''users'' w))))
   \<and> (map_of db ''users'' = None \<longrightarrow>
        (\<exists>db1 db2 db3.
            exec_all (migration_sql 1 h) [] db = (Inr [], db1)
          \<and> exec_all (migration_sql 7 h1) [] db1 = (Inr [], db2)
          \<and> exec_all (migration_sql 7 h2) [] db2 = (Inr [], db3)
          \<and> rows_in db1 ''users'' = []
          \<and> rows_in db2 ''users'' = [adminRow h1]
          \<and> rows_in db3 ''users'' = [adminRow h1]))
   \<and> table_rows ''users''
        (startups [(no_failures, k, s), (no_failures, k', s')] empty_world)
       = [adminRow (hashSync ''marceloadmin'' k s)]"
proof -
  have runs: "users_as_declared (migrations h) (tables w) \<longrightarrow>
      (\<exists>new. table_rows ''users'' (startups runs w) = table_rows ''users'' w @ new
          \<and> (new = [] \<or>
               list_all (\<lambda>r. \<not> seeded_account r) (table_rows ''users'' w) \<and>
               (\<exists>(fails, k, s) \<in> set runs. new = [adminRow (hashSync ''marceloadmin'' k s)])))
      \<and> length (filter seeded_account (table_rows ''users'' (startups runs w)))
           \<le> max 1 (length (filter seeded_account (table_rows ''users'' w)))"
    using startups_seed [of w runs] startups_seed_count [of w runs]
    by (simp add: users_as_declared_keyed)
  have stmts: "map_of db ''users'' = None \<longrightarrow>
        (\<exists>db1 db2 db3.
            exec_all (migration_sql 1 h) [] db = (Inr [], db1)
          \<and> exec_all (migration_sql 7 h1) [] db1 = (Inr [], db2)
          \<and> exec_all (migration_sql 7 h2) [] db2 = (Inr [], db3)
          \<and> rows_in db1 ''users'' = []
          \<and> rows_in db2 ''users'' = [adminRow h1]
          \<and> rows_in db3 ''users'' = [adminRow h1])"
    using seed_twice_after_create [of db h h1 h2] by blast
  have two: "table_rows ''users''
            (startups [(no_failures, k, s), (no_failures, k', s')] empty_world)
           = [adminRow (hashSync ''marceloadmin'' k s)]"
    by (simp add: second_table_rows second_rows)
  show ?thesis
    using runs stmts two by (intro conjI)
qed

text \<open>
  C8 at concrete inputs. Two startups on an empty database, the first with the
  bookkeeping INSERT of migration 7 failing and the second with nothing failing: after
  the first the seed row is there and id 7 is not recorded; both startups send the seed
  statement, each with its own hash; and after the second there is still exactly the
  row of the first. A start on the database that a first start left, where the account
  exists: the rows of \<open>users\<close> stay as they are. And on the empty database, migration 1
  followed by the seed executed twice leaves the row of the first execution.
\<close>

theorem admin_seed_is_guarded_witness:
  "users_as_declared (migrations (hashSync ''marceloadmin'' (Integer 10) ''N9qo8uLOickgx2ZMRZoMye''))
      (tables empty_world)
   \<and> table_rows ''users''
        (startups [(\<lambda>n. n = 62, Integer 10, ''N9qo8uLOickgx2ZMRZoMye'')] empty_world)
       = [adminRow (hashSync ''marceloadmin'' (Integer 10) ''N9qo8uLOickgx2ZMRZoMye'')]
   \<and> Num 7 \<notin> applied_ids
        (startups [(\<lambda>n. n = 62, Integer 10, ''N9qo8uLOickgx2ZMRZoMye'')] empty_world)
   \<and> Query [InsertIgnore ''users''
               (adminRow (hashSync ''marceloadmin'' (Integer 10) ''N9qo8uLOickgx2ZMRZoMye''))]
       \<in> set (new_events empty_world
                 (startups [(\<lambda>n. n = 62, Integer 10, ''N9qo8uLOickgx2ZMRZoMye'')] empty_world))
   \<and> Query [InsertIgnore ''users''
               (adminRow (hashSync ''marceloadmin'' (Integer 10) ''Xk3vU0pLq1dW8sTzR5yB2e''))]
       \<in> set (new_events
                 (startups [(\<lambda>n. n = 62, Integer 10, ''N9qo8uLOickgx2ZMRZoMye'')] empty_world)
                 (startups [(\<lambda>n. n = 62, Integer 10, ''N9qo8uLOickgx2ZMRZoMye''),
                            (no_failures, Integer 10, ''Xk3vU0pLq1dW8sTzR5yB2e'')] empty_world))
   \<and> table_rows ''users''
        (startups [(\<lambda>n. n = 62, Integer 10, ''N9qo8uLOickgx2ZMRZoMye''),
                   (no_failures, Integer 10, ''Xk3vU0pLq1dW8sTzR5yB2e'')] empty_world)
       = [adminRow (hashSync ''marceloadmin'' (Integer 10) ''N9qo8uLOickgx2ZMRZoMye'')]
   \<and> length (filter seeded_account
        (table_rows ''users''
           (startups [(\<lambda>n. n = 62, Integer 10, ''N9qo8uLOickgx2ZMRZoMye''),
                      (no_failures, Integer 10, ''Xk3vU0pLq1dW8sTzR5yB2e'')] empty_world))) = 1
   \<and> users_as_declared (migrations (hashSync ''marceloadmin'' (Integer 10) ''N9qo8uLOickgx2ZMRZoMye''))
        (tables (runMigrations no_failures (Integer 10) ''N9qo8uLOickgx2ZMRZoMye'' empty_world))
   \<and> table_rows ''users''
        (startups [(no_failures, Integer 10, ''Xk3vU0pLq1dW8sTzR5yB2e'')]
           (runMigrations no_failures (Integer 10) ''N9qo8uLOickgx2ZMRZoMye'' empty_world))
       = table_rows ''users''
           (runMigrations no_failures (Integer 10) ''N9qo8uLOickgx2ZMRZoMye'' empty_world)
   \<and> (\<exists>db1 db2 db3.
          exec_all (migration_sql 1 (hashSync ''marceloadmin'' (Integer 10) ''N9qo8uLOickgx2ZMRZoMye''))
            [] [] = (Inr [], db1)
        \<and> exec_all (migration_sql 7 (hashSync ''marceloadmin'' (Integer 10) ''N9qo8uLOickgx2ZMRZoMye''))
            [] db1 = (Inr [], db2)
        \<and> exec_all (migration_sql 7 (hashSync ''marceloadmin'' (Integer 10) ''Xk3vU0pLq1dW8sTzR5yB2e''))
            [] db2 = (Inr [], db3)
        \<and> rows_in db1 ''users'' = []
        \<and> rows_in db2 ''users''
            = [adminRow (hashSync ''marceloadmin'' (Integer 10) ''N9qo8uLOickgx2ZMRZoMye'')]
        \<and> rows_in db3 ''users''
            = [adminRow (hashSync ''marceloadmin'' (Integer 10) ''N9qo8uLOickgx2ZMRZoMye'')])"
proof -
  let ?f = "\<lambda>n :: nat. n = 62"
  let ?s1 = "''N9qo8uLOickgx2ZMRZoMye''"
  let ?s2 = "''Xk3vU0pLq1dW8sTzR5yB2e''"
  let ?h1 = "hashSync ''marceloadmin'' (Integer 10) ?s1"
  let ?h2 = "hashSync ''marceloadmin'' (Integer 10) ?s2"
  let ?m1 = "\<lparr>mid = 7, sql = [InsertIgnore ''users'' (adminRow ?h1)]\<rparr>"
  let ?m2 = "\<lparr>mid = 7, sql = [InsertIgnore ''users'' (adminRow ?h2)]\<rparr>"
  let ?X = "runMigrations ?f (Integer 10) ?s1 empty_world"
  let ?Y = "runMigrations no_failures (Integer 10) ?s2 ?X"
  let ?W1 = "runMigrations no_failures (Integer 10) ?s1 empty_world"
  let ?runs = "[(?f, Integer 10, ?s1), (no_failures, Integer 10, ?s2)]"
  have decl0: "users_as_declared (migrations ?h1) (tables empty_world)"
    by (simp add: users_as_declared_def empty_world_def)
  have X: "?X = release (console_log MigrationsCheckComplete
       (runPending ?f {} (migrations ?h1)
          (ensureCriticalSchema ?f
             \<lparr>tables = [(''migrations'',
                          \<lparr>columns = [(''id'', ''INT PRIMARY KEY'')], uniques = [''id''], rows = []\<rparr>)],
              trace = [ConsoleLog CheckingDatabaseMigrations, Acquire,
                       Query [createMigrationsTable], Query [SelectFrom ''id'' ''migrations''] ]\<rparr>)))"
    unfolding runMigrations_def by (rule interrupted_start)
  have rowsX: "table_rows n ?X =
     (case map_of
        [(''migrations'', map (\<lambda>i. [(''id'', Num i)]) [1, 2, 3, 4, 5, 6, 8, 9, 10, 12, 13, 14, 15]),
         (''users'', [adminRow ?h1]),
         (''equipment'', []),
         (''licenses'', []),
         (''equipment_history'', []),
         (''audit_log'', []),
         (''app_config'',
           [configRow ''companyName'' (Str ''MRR INFORMATICA''),
            configRow ''isSsoEnabled'' (Str ''false''),
            configRow ''termo_entrega_template'' Null,
            configRow ''termo_devolucao_template'' Null,
            configRow ''is2faEnabled'' (Str ''false'')])] n of
        None \<Rightarrow> [] | Some rs \<Rightarrow> rs)" for n
    unfolding X table_rows_def by (simp add: rows_in_map interrupted_rows)
  have usersX: "table_rows ''users'' ?X = [adminRow ?h1]"
    by (simp add: rowsX)
  have pendX: "Num 7 \<notin> applied_ids ?X"
    unfolding applied_ids_def by (simp add: rowsX cell_def)
  have rowsY: "table_rows n ?Y =
     (case map_of
        [(''migrations'', map (\<lambda>i. [(''id'', Num i)]) [1, 2, 3, 4, 5, 6, 8, 9, 10, 12, 13, 14, 15, 7]),
         (''users'', [adminRow ?h1]),
         (''equipment'', []),
         (''licenses'', []),
         (''equipment_history'', []),
         (''audit_log'', []),
         (''app_config'',
           [configRow ''companyName'' (Str ''MRR INFORMATICA''),
            configRow ''isSsoEnabled'' (Str ''false''),
            configRow ''termo_entrega_template'' Null,
            configRow ''termo_devolucao_template'' Null,
            configRow ''is2faEnabled'' (Str ''false'')])] n of
        None \<Rightarrow> [] | Some rs \<Rightarrow> rs)" for n
    unfolding table_rows_def runMigrations_tables
    unfolding X by (simp add: rows_in_map resumed_rows)
  have usersY: "table_rows ''users'' ?Y = [adminRow ?h1]"
    by (simp add: rowsY)
  have mem1: "?m1 \<in> set (migrations ?h1)" and mem2: "?m2 \<in> set (migrations ?h2)"
    by (simp_all add: migrations_def)
  have finX: "ConsoleLog MigrationsCheckComplete
                \<in> set (new_events empty_world (runMigrationsWith ?f (migrations ?h1) empty_world))"
    unfolding interrupted_start by (simp add: new_events_def empty_world_def)
  have "Num (mid ?m1) \<notin> applied_ids empty_world"
    by (simp add: applied_ids_def table_rows_def rows_in_def empty_world_def)
  with mem1 have "\<exists>pre out post.
      new_events empty_world (runMigrationsWith ?f (migrations ?h1) empty_world)
        = pre @ attempt ?m1 out @ post"
    using finX by (rule pending_is_attempted)
  then have "sublist [ConsoleLog (RunningMigration (mid ?m1)), Query (sql ?m1)]
               (new_events empty_world ?X)"
    unfolding runMigrations_def using attempted_sublist [of _ _ ?m1] by fastforce
  then have sent1: "Query [InsertIgnore ''users'' (adminRow ?h1)] \<in> set (new_events empty_world ?X)"
    using set_mono_sublist by fastforce
  obtain t where t: "map_of (tables ?X) ''migrations'' = Some t" "''id'' \<in> set (field_names t)"
    using interrupted_migrations_columns [of ?h1] unfolding X by auto
  have finY: "ConsoleLog MigrationsCheckComplete
                \<in> set (new_events ?X (runMigrationsWith no_failures (migrations ?h2) ?X))"
    using t by (rule runMigrationsWith_completes)
  have "Num (mid ?m2) \<notin> applied_ids ?X"
    using pendX by simp
  with mem2 have "\<exists>pre out post.
      new_events ?X (runMigrationsWith no_failures (migrations ?h2) ?X)
        = pre @ attempt ?m2 out @ post"
    using finY by (rule pending_is_attempted)
  then have "sublist [ConsoleLog (RunningMigration (mid ?m2)), Query (sql ?m2)]
               (new_events ?X ?Y)"
    unfolding runMigrations_def using attempted_sublist [of _ _ ?m2] by fastforce
  then have sent2: "Query [InsertIgnore ''users'' (adminRow ?h2)] \<in> set (new_events ?X ?Y)"
    using set_mono_sublist by fastforce
  note inst = admin_seed_is_guarded [where h = ?h1 and w = empty_world and runs = ?runs,
      THEN conjunct1, rule_format, OF decl0]
  have "length (filter seeded_account (table_rows ''users'' (startups ?runs empty_world))) \<le> 1"
    using inst [THEN conjunct2]
    by (simp add: table_rows_def rows_in_def empty_world_def)
  moreover have "length (filter seeded_account (table_rows ''users'' ?Y)) \<ge> 1"
    by (simp add: usersY seeded_adminRow)
  ultimately have one: "length (filter seeded_account (table_rows ''users'' ?Y)) = 1"
    by simp
  have "users_keyed (tables ?W1)"
    using runMigrations_seed [of empty_world "Integer 10" ?s1 no_failures]
    by (simp add: seed_step_def users_keyed_def empty_world_def)
  then have decl1: "users_as_declared (migrations ?h1) (tables ?W1)"
    by (simp add: users_as_declared_keyed)
  have usersW1: "table_rows ''users'' ?W1 = [adminRow ?h1]"
    by (simp add: fresh_table_rows fresh_rows)
  note kept = admin_seed_is_guarded
      [where h = ?h1 and w = ?W1 and runs = "[(no_failures, Integer 10, ?s2)]",
       THEN conjunct1, rule_format, OF decl1, THEN conjunct1]
  have same: "table_rows ''users'' (startups [(no_failures, Integer 10, ?s2)] ?W1)
                = table_rows ''users'' ?W1"
    using kept seeded_adminRow [of ?h1] unfolding usersW1 by auto
  have none: "map_of ([] :: database) ''users'' = None" by simp
  note stmts = admin_seed_is_guarded [where db = "[]" and h = ?h1 and ?h1.0 = ?h1 and ?h2.0 = ?h2,
      THEN conjunct2, THEN conjunct1, rule_format, OF none]
  show ?thesis
    using decl0 usersX pendX sent1 sent2 usersY one decl1 same stmts
    by (simp del: startups.simps(2) exec_all.simps) (simp add: usersX usersY sent1 sent2 pendX one)
qed

end
